theory Spec2Isabelle
  imports Main
begin

section \<open>Python text\<close>

text \<open>
  The script \<^verbatim>\<open>scripts/stream_scryfall_blocks.py\<close> works on Python \<^verbatim>\<open>str\<close> values.
  A text is modelled as a list of characters; a character stands for the Unicode code
  point of the same number (the range U+0000 to U+00FF). The character classes below are
  Python's \<^verbatim>\<open>str.isspace\<close>, \<^verbatim>\<open>str.isalpha\<close> and \<^verbatim>\<open>str.lower\<close> on that range.
\<close>

definition isspace_char :: "char \<Rightarrow> bool" where
  "isspace_char c =
     (let n = (of_char c :: nat)
      in (9 \<le> n \<and> n \<le> 13) \<or> (28 \<le> n \<and> n \<le> 32) \<or> n = 133 \<or> n = 160)"

definition isalpha_char :: "char \<Rightarrow> bool" where
  "isalpha_char c =
     (let n = (of_char c :: nat)
      in (65 \<le> n \<and> n \<le> 90) \<or> (97 \<le> n \<and> n \<le> 122) \<or> n = 170 \<or> n = 181 \<or> n = 186
         \<or> (192 \<le> n \<and> n \<le> 214) \<or> (216 \<le> n \<and> n \<le> 246) \<or> 248 \<le> n)"

definition lower_char :: "char \<Rightarrow> char" where
  "lower_char c =
     (let n = (of_char c :: nat)
      in if (65 \<le> n \<and> n \<le> 90) \<or> (192 \<le> n \<and> n \<le> 222 \<and> n \<noteq> 215)
         then char_of (n + 32) else c)"

text \<open>\<^verbatim>\<open>s.isalpha()\<close>: false on the empty text, as the loop below relies on.\<close>

definition isalpha :: "string \<Rightarrow> bool" where
  "isalpha s = (s \<noteq> [] \<and> list_all isalpha_char s)"

definition lower :: "string \<Rightarrow> string" where
  "lower s = map lower_char s"

definition lstrip :: "string \<Rightarrow> string" where
  "lstrip s = dropWhile isspace_char s"

definition strip :: "string \<Rightarrow> string" where
  "strip s = rev (dropWhile isspace_char (rev (dropWhile isspace_char s)))"

text \<open>\<^verbatim>\<open>text.startswith(marker, i)\<close> for \<open>i \<le> len(text)\<close>.\<close>

definition startswith_at :: "string \<Rightarrow> string \<Rightarrow> nat \<Rightarrow> bool" where
  "startswith_at text marker i = (take (length marker) (drop i text) = marker)"

text \<open>
  \<^verbatim>\<open>text.find(marker, i)\<close>: the least index from \<open>i\<close> on at which \<open>marker\<close> occurs;
  \<open>None\<close> is Python's \<open>-1\<close>.
\<close>

function find_from :: "string \<Rightarrow> string \<Rightarrow> nat \<Rightarrow> nat option" where
  "find_from text marker i =
     (if length text < i then None
      else if startswith_at text marker i then Some i
      else find_from text marker (Suc i))"
  by pat_completeness auto
termination
  by (relation "measure (\<lambda>(text, marker, i). Suc (length text) - i)") auto

declare find_from.simps [simp del]

text \<open>\<^verbatim>\<open>marker in text\<close> on two texts.\<close>

definition str_contains :: "string \<Rightarrow> string \<Rightarrow> bool" where
  "str_contains text marker = (find_from text marker 0 \<noteq> None)"

section \<open>The digital-only markers\<close>

definition DIGITAL_ONLY_ORACLE_MARKERS :: "string list" where
  "DIGITAL_ONLY_ORACLE_MARKERS =
     [''boon'', ''conjure'', ''double team'', ''draft'', ''heist'', ''incorporate'',
      ''intensity'', ''intensify'', ''perpetually'', ''seek'', ''specialize'', ''spellbook'']"

text \<open>
  The loop of \<^verbatim>\<open>contains_marker_with_boundaries\<close>; its state is \<open>start\<close>, the result of
  the last \<^verbatim>\<open>find\<close>.
\<close>

lemma find_from_bounds:
  "find_from text marker i = Some j \<Longrightarrow> i \<le> j \<and> j \<le> length text"
proof (induction "text" marker i rule: find_from.induct)
  case (1 s m i)
  show ?case
  proof (cases "length s < i \<or> startswith_at s m i")
    case True
    with "1.prems" show ?thesis
      by (auto simp: find_from.simps [of s m i] split: if_splits)
  next
    case False
    with "1.prems" have "find_from s m (Suc i) = Some j"
      by (simp add: find_from.simps [of s m i])
    with False "1.IH" show ?thesis by auto
  qed
qed

function marker_loop :: "string \<Rightarrow> string \<Rightarrow> nat option \<Rightarrow> bool" where
  "marker_loop text marker None = False"
| "marker_loop text marker (Some start) =
     (let before = (if 0 < start then [text ! (start - 1)] else []);
          after_index = start + length marker;
          after = (if after_index < length text then [text ! after_index] else []);
          before_is_letter = isalpha before;
          after_is_letter = isalpha after
      in if \<not> before_is_letter \<and> \<not> after_is_letter then True
         else marker_loop text marker (find_from text marker (start + 1)))"
  by pat_completeness auto
termination
proof (relation "measure (\<lambda>(text, marker, st).
          case st of None \<Rightarrow> 0 | Some s \<Rightarrow> Suc (Suc (length text) - s))")
  show "wf (measure (\<lambda>(text, marker, st).
          case st of None \<Rightarrow> 0 | Some s \<Rightarrow> Suc (Suc (length text) - s)))"
    by simp
next
  fix s marker :: string and start :: nat
  show "((s, marker, find_from s marker (start + 1)), (s, marker, Some start))
        \<in> measure (\<lambda>(text, marker, st).
             case st of None \<Rightarrow> 0 | Some s \<Rightarrow> Suc (Suc (length text) - s))"
  proof (cases "find_from s marker (start + 1)")
    case None
    then show ?thesis by simp
  next
    case (Some j)
    from find_from_bounds [OF Some] have "start < j" "j \<le> length s" by auto
    with Some show ?thesis by simp
  qed
qed

definition contains_marker_with_boundaries :: "string \<Rightarrow> string \<Rightarrow> bool" where
  "contains_marker_with_boundaries text marker = marker_loop text marker (find_from text marker 0)"


section \<open>Decoded values\<close>

text \<open>
  The values \<^verbatim>\<open>json\<close> decodes to: \<^verbatim>\<open>None\<close>, booleans, integers, text, lists and dicts.
  Numbers are modelled on the integers; a number with a fraction or an exponent (a Python
  float) is outside the model. A dict is kept as the list of its items in insertion order;
  \<^verbatim>\<open>d.get(key)\<close> reads the first item under the key. The keys of a Python dict are distinct.
\<close>

datatype json =
    JNull
  | JBool bool
  | JInt int
  | JStr string
  | JArr "json list"
  | JObj "(string \<times> json) list"

datatype py_error =
    JSONDecodeError
  | RecursionError
  | AttributeError
  | TypeError
  | KeyError
  | IndexError

text \<open>Sequencing of two steps of which the first may raise.\<close>

definition and_then :: "py_error + 'a \<Rightarrow> ('a \<Rightarrow> py_error + 'b) \<Rightarrow> py_error + 'b" where
  "and_then m f = (case m of Inl e \<Rightarrow> Inl e | Inr v \<Rightarrow> f v)"

text \<open>Truth value testing, as \<^verbatim>\<open>if v\<close>, \<^verbatim>\<open>v or w\<close> and \<^verbatim>\<open>not v\<close> do it.\<close>

fun truthy :: "json \<Rightarrow> bool" where
  "truthy JNull = False"
| "truthy (JBool b) = b"
| "truthy (JInt i) = (i \<noteq> 0)"
| "truthy (JStr s) = (s \<noteq> [])"
| "truthy (JArr xs) = (xs \<noteq> [])"
| "truthy (JObj d) = (d \<noteq> [])"

definition dict_get :: "(string \<times> json) list \<Rightarrow> string \<Rightarrow> json" where
  "dict_get d key = (case map_of d key of None \<Rightarrow> JNull | Some v \<Rightarrow> v)"

definition dict_values :: "(string \<times> json) list \<Rightarrow> json list" where
  "dict_values d = map snd d"

text \<open>\<^verbatim>\<open>v.get(key)\<close>: only a dict has the method.\<close>

fun py_get :: "json \<Rightarrow> string \<Rightarrow> py_error + json" where
  "py_get (JObj d) key = Inr (dict_get d key)"
| "py_get _ key = Inl AttributeError"

text \<open>\<^verbatim>\<open>v[0]\<close>.\<close>

fun py_first :: "json \<Rightarrow> py_error + json" where
  "py_first (JArr (x # xs)) = Inr x"
| "py_first (JArr []) = Inl IndexError"
| "py_first (JStr (c # s)) = Inr (JStr [c])"
| "py_first (JStr []) = Inl IndexError"
| "py_first (JObj d) = Inl KeyError"
| "py_first _ = Inl TypeError"

text \<open>\<^verbatim>\<open>label in v\<close> for a text \<open>label\<close>: substring, list membership, or key membership.\<close>

fun py_in :: "string \<Rightarrow> json \<Rightarrow> py_error + bool" where
  "py_in label (JStr s) = Inr (str_contains s label)"
| "py_in label (JArr xs) = Inr (JStr label \<in> set xs)"
| "py_in label (JObj d) = Inr (label \<in> set (map fst d))"
| "py_in label _ = Inl TypeError"

text \<open>\<^verbatim>\<open>any(label in v for label in labels)\<close>: stops at the first hit, and at the first raise.\<close>

fun any_in :: "string list \<Rightarrow> json \<Rightarrow> py_error + bool" where
  "any_in [] v = Inr False"
| "any_in (label # labels) v =
     and_then (py_in label v) (\<lambda>hit. if hit then Inr True else any_in labels v)"

text \<open>\<^verbatim>\<open>v.strip()\<close> and \<^verbatim>\<open>v.lower()\<close>: only text has the methods.\<close>

fun py_strip :: "json \<Rightarrow> py_error + string" where
  "py_strip (JStr s) = Inr (strip s)"
| "py_strip _ = Inl AttributeError"

fun py_lower :: "json \<Rightarrow> py_error + string" where
  "py_lower (JStr s) = Inr (lower s)"
| "py_lower _ = Inl AttributeError"

section \<open>Field resolution\<close>

definition pick_field :: "json \<Rightarrow> json \<Rightarrow> string \<Rightarrow> py_error + json" where
  "pick_field card' face key =
     and_then (py_get card' key) (\<lambda>value.
       if value \<noteq> JNull then Inr value
       else if face \<noteq> JNull then py_get face key
       else Inr JNull)"

definition has_digital_only_oracle_marker :: "json \<Rightarrow> py_error + bool" where
  "has_digital_only_oracle_marker oracle_text =
     and_then (py_lower oracle_text) (\<lambda>lower.
       Inr (list_ex (\<lambda>marker. contains_marker_with_boundaries lower marker)
              DIGITAL_ONLY_ORACLE_MARKERS))"

section \<open>Text of a value\<close>

text \<open>
  An f-string puts \<^verbatim>\<open>str(v)\<close> in place of \<^verbatim>\<open>{v}\<close>: the text itself for a text, and the
  \<^verbatim>\<open>repr\<close> of every other value.
\<close>

function str_nat :: "nat \<Rightarrow> string" where
  "str_nat n = (if n < 10 then [char_of (48 + n)] else str_nat (n div 10) @ [char_of (48 + n mod 10)])"
  by pat_completeness auto
termination
  by (relation "measure id") auto

declare str_nat.simps [simp del]

definition str_int :: "int \<Rightarrow> string" where
  "str_int i = (if i < 0 then CHR ''-'' # str_nat (nat (- i)) else str_nat (nat i))"

definition hex_char :: "nat \<Rightarrow> char" where
  "hex_char d = (if d < 10 then char_of (48 + d) else char_of (87 + d))"

definition repr_char :: "char \<Rightarrow> char \<Rightarrow> string" where
  "repr_char quote c =
     (let n = (of_char c :: nat)
      in if c = quote \<or> c = CHR 0x5C then [CHR 0x5C, c]
         else if n = 9 then [CHR 0x5C, CHR ''t'']
         else if n = 10 then [CHR 0x5C, CHR ''n'']
         else if n = 13 then [CHR 0x5C, CHR ''r'']
         else if n < 32 \<or> (127 \<le> n \<and> n \<le> 160) \<or> n = 173
           then [CHR 0x5C, CHR ''x'', hex_char (n div 16), hex_char (n mod 16)]
         else [c])"

definition repr_str :: "string \<Rightarrow> string" where
  "repr_str s =
     (let quote = (if CHR 0x27 \<in> set s \<and> CHR 0x22 \<notin> set s then CHR 0x22 else CHR 0x27)
      in quote # concat (map (repr_char quote) s) @ [quote])"

text \<open>\<^verbatim>\<open>sep.join(xs)\<close>.\<close>

fun join :: "string \<Rightarrow> string list \<Rightarrow> string" where
  "join sep [] = []"
| "join sep [x] = x"
| "join sep (x # y # ys) = x @ sep @ join sep (y # ys)"

fun py_repr :: "json \<Rightarrow> string" where
  "py_repr JNull = ''None''"
| "py_repr (JBool b) = (if b then ''True'' else ''False'')"
| "py_repr (JInt i) = str_int i"
| "py_repr (JStr s) = repr_str s"
| "py_repr (JArr xs) = ''['' @ join '', '' (map py_repr xs) @ '']''"
| "py_repr (JObj d) =
     ''{'' @ join '', '' (map (\<lambda>kv. repr_str (fst kv) @ '': '' @ py_repr (snd kv)) d) @ ''}''"

fun py_str :: "json \<Rightarrow> string" where
  "py_str (JStr s) = s"
| "py_str v = py_repr v"

section \<open>Playability\<close>

text \<open>\<^verbatim>\<open>v or w\<close>.\<close>

definition py_or :: "json \<Rightarrow> json \<Rightarrow> json" where
  "py_or v w = (if truthy v then v else w)"

text \<open>\<^verbatim>\<open>all(value == "not_legal" for value in legalities.values())\<close>: only a dict has \<^verbatim>\<open>values\<close>.\<close>

fun all_not_legal :: "json \<Rightarrow> py_error + bool" where
  "all_not_legal (JObj d) = Inr (list_all (\<lambda>value. value = JStr ''not_legal'') (dict_values d))"
| "all_not_legal _ = Inl AttributeError"

definition non_playable_types :: "string list" where
  "non_playable_types =
     [''Token'', ''Emblem'', ''Plane'', ''Scheme'', ''Vanguard'', ''Phenomenon'',
      ''Conspiracy'', ''Dungeon'', ''Attraction'', ''Contraption'']"

definition is_non_playable :: "json \<Rightarrow> json \<Rightarrow> json \<Rightarrow> py_error + bool" where
  "is_non_playable card' type_line oracle_text =
     and_then (py_get card' ''border_color'') (\<lambda>bc.
     and_then (py_strip (py_or bc (JStr []))) (\<lambda>stripped.
     let border_color = lower stripped in
     if border_color = ''silver'' then Inr True else
     and_then (py_get card' ''has_acorn'') (\<lambda>has_acorn.
     if truthy has_acorn then Inr True else
     and_then (py_get card' ''legalities'') (\<lambda>lg.
     let legalities = py_or lg (JObj []) in
     and_then (if truthy legalities then all_not_legal legalities else Inr False) (\<lambda>hit.
     if hit then Inr True else
     and_then (py_get card' ''layout'') (\<lambda>lo.
     and_then (py_strip (py_or lo (JStr []))) (\<lambda>stripped.
     let layout = lower stripped in
     if layout \<in> {''token'', ''double_faced_token'', ''emblem'', ''planar'', ''scheme'',
                  ''vanguard'', ''art_series'', ''reversible_card''}
     then Inr True else
     and_then (if truthy type_line
               then and_then (any_in non_playable_types type_line) (\<lambda>hit.
                      if hit then Inr True
                      else and_then (py_strip type_line) (\<lambda>stripped. Inr (stripped = ''Card'')))
               else Inr False) (\<lambda>hit.
     if hit then Inr True else
     and_then (if truthy oracle_text then py_in ''Theme color'' oracle_text else Inr False) (\<lambda>hit.
     if hit then Inr True else
     and_then (if truthy oracle_text then has_digital_only_oracle_marker oracle_text
               else Inr False) (\<lambda>hit.
     if hit then Inr True else
     Inr False))))))))))"

section \<open>Rendering\<close>

text \<open>
  The first two statements of \<^verbatim>\<open>build_block\<close>, \<^verbatim>\<open>faces = card.get("card_faces") or []\<close>
  and \<^verbatim>\<open>face = faces[0] if faces else None\<close>, and the third,
  \<^verbatim>\<open>name = card.get("name") or (face or {}).get("name")\<close>, where the right operand of
  \<^verbatim>\<open>or\<close> is evaluated only when the left one is falsy.
\<close>

definition first_face :: "json \<Rightarrow> py_error + json" where
  "first_face card' =
     and_then (py_get card' ''card_faces'') (\<lambda>cf.
     let faces = py_or cf (JArr []) in
     if truthy faces then py_first faces else Inr JNull)"

definition resolve_name :: "json \<Rightarrow> json \<Rightarrow> py_error + json" where
  "resolve_name card' face =
     and_then (py_get card' ''name'') (\<lambda>n.
     if truthy n then Inr n else py_get (py_or face (JObj [])) ''name'')"

text \<open>
  The oracle text is appended to the lines as it is, where every other line is an
  f-string; \<^verbatim>\<open>"\\n".join(lines)\<close> raises on an item that is not a text.
\<close>

fun py_text :: "json \<Rightarrow> py_error + string" where
  "py_text (JStr s) = Inr s"
| "py_text _ = Inl TypeError"

definition build_block :: "json \<Rightarrow> py_error + string option" where
  "build_block card' =
     and_then (first_face card') (\<lambda>face.
     and_then (resolve_name card' face) (\<lambda>name.
     if \<not> truthy name then Inr None else
     and_then (pick_field card' face ''mana_cost'') (\<lambda>mana_cost.
     and_then (pick_field card' face ''type_line'') (\<lambda>type_line.
     and_then (pick_field card' face ''oracle_text'') (\<lambda>oracle_text.
     and_then (pick_field card' face ''power'') (\<lambda>power.
     and_then (pick_field card' face ''toughness'') (\<lambda>toughness.
     and_then (pick_field card' face ''loyalty'') (\<lambda>loyalty.
     and_then (pick_field card' face ''defense'') (\<lambda>defense.
     and_then (is_non_playable card' type_line oracle_text) (\<lambda>non_playable.
     if non_playable then Inr None else
     let lines = [''Name: '' @ py_str name];
         lines = (if truthy mana_cost then lines @ [''Mana cost: '' @ py_str mana_cost] else lines);
         lines = (if truthy type_line then lines @ [''Type: '' @ py_str type_line] else lines);
         lines = (if power \<noteq> JNull \<and> toughness \<noteq> JNull
                  then lines @ [''Power/Toughness: '' @ py_str power @ ''/'' @ py_str toughness]
                  else lines);
         lines = (if loyalty \<noteq> JNull then lines @ [''Loyalty: '' @ py_str loyalty] else lines);
         lines = (if defense \<noteq> JNull then lines @ [''Defense: '' @ py_str defense] else lines)
     in if truthy oracle_text
        then and_then (py_text oracle_text) (\<lambda>line.
               Inr (Some (join [CHR 0x0A] (lines @ [line]))))
        else Inr (Some (join [CHR 0x0A] lines))))))))))))"

section \<open>The pipeline\<close>

text \<open>
  The body of the loop of \<^verbatim>\<open>main\<close> over the cards the generator yields: the texts printed,
  one per \<^verbatim>\<open>print\<close>, and the exception that ended the loop, if one did.
\<close>

fun emit :: "json list \<Rightarrow> string list \<times> py_error option" where
  "emit [] = ([], None)"
| "emit (card' # cards) =
     (case build_block card' of
        Inl e \<Rightarrow> ([], Some e)
      | Inr block \<Rightarrow>
          (case block of
             None \<Rightarrow> emit cards
           | Some b \<Rightarrow>
               if b = [] then emit cards
               else (case emit cards of (out, r) \<Rightarrow> (b # ''---'' # out, r))))"

section \<open>The streaming decoder\<close>

text \<open>
  \<^verbatim>\<open>iter_json_array\<close> reads the file through \<^verbatim>\<open>f.read\<close>; the model takes the text of the
  file, and a read of \<open>n\<close> characters takes the next \<open>n\<close> of it (fewer at the end of the
  file, none after it). \<^verbatim>\<open>json.JSONDecoder().raw_decode\<close> belongs to Python's library, not
  to this script: it enters as the parameter \<open>raw_decode\<close>, which returns the decoded value
  with the index where it ends, or the exception it raises.
\<close>

type_synonym decoder = "string \<Rightarrow> py_error + (json \<times> nat)"

text \<open>The first loop: read one character at a time up to the first opening bracket.\<close>

fun find_array_start :: "string \<Rightarrow> string option" where
  "find_array_start [] = None"
| "find_array_start (ch # f) =
     (if isspace_char ch then find_array_start f
      else if ch = CHR ''['' then Some f
      else find_array_start f)"

text \<open>
  The innermost loop, over the buffer. It ends by \<^verbatim>\<open>break\<close> with the buffer it leaves, by
  \<^verbatim>\<open>return\<close> at the closing bracket, or by an exception other than \<^verbatim>\<open>JSONDecodeError\<close>;
  the values are those it yields on the way. The loop runs forever when the decoder
  reports a value that ends at index 0.
\<close>

datatype loop_end = Break string | Return | Raise py_error

partial_function (option) drain_buffer :: "decoder \<Rightarrow> string \<Rightarrow> (json list \<times> loop_end) option" where
  "drain_buffer raw_decode buf =
     (let buf = lstrip buf
      in if buf = [] then Some ([], Break buf)
         else if hd buf = CHR '']'' then Some ([], Return)
         else if hd buf = CHR '','' then drain_buffer raw_decode (tl buf)
         else (case raw_decode buf of
                 Inl e \<Rightarrow> (if e = JSONDecodeError then Some ([], Break buf) else Some ([], Raise e))
               | Inr (obj, idx) \<Rightarrow>
                   Option.bind (drain_buffer raw_decode (drop idx buf))
                     (\<lambda>(objs, stop). Some (obj # objs, stop))))"

text \<open>The generator ends by returning or by raising; the values are those it yielded.\<close>

datatype gen_end = Returned | Raised py_error

text \<open>The second loop: read a chunk, append it to the buffer, drain the buffer.\<close>

function read_loop :: "decoder \<Rightarrow> string \<Rightarrow> string \<Rightarrow> (json list \<times> gen_end) option" where
  "read_loop raw_decode buf f =
     (if take 65536 f = [] then Some ([], Returned)
      else (case drain_buffer raw_decode (buf @ take 65536 f) of
              None \<Rightarrow> None
            | Some (objs, Break buf') \<Rightarrow>
                map_option (\<lambda>(more, stop). (objs @ more, stop))
                  (read_loop raw_decode buf' (drop 65536 f))
            | Some (objs, Return) \<Rightarrow> Some (objs, Returned)
            | Some (objs, Raise e) \<Rightarrow> Some (objs, Raised e)))"
  by pat_completeness auto
termination
  by (relation "measure (\<lambda>(raw_decode, buf, f). length f)") auto

declare read_loop.simps [simp del]

definition iter_json_array :: "decoder \<Rightarrow> string \<Rightarrow> (json list \<times> gen_end) option" where
  "iter_json_array raw_decode f =
     (case find_array_start f of
        None \<Rightarrow> Some ([], Returned)
      | Some f' \<Rightarrow> read_loop raw_decode [] f')"

text \<open>
  \<^verbatim>\<open>main\<close> on the text of the file: what it prints, and the exception that ends it, if
  one does; \<open>None\<close> when the generator never ends.
\<close>

definition main :: "decoder \<Rightarrow> string \<Rightarrow> (string list \<times> py_error option) option" where
  "main raw_decode f =
     (case iter_json_array raw_decode f of
        None \<Rightarrow> None
      | Some (cards, stop) \<Rightarrow>
          (case emit cards of
             (out, Some e) \<Rightarrow> Some (out, Some e)
           | (out, None) \<Rightarrow>
               (case stop of Returned \<Rightarrow> Some (out, None) | Raised e \<Rightarrow> Some (out, Some e))))"

section \<open>A decoder for numerals and literals\<close>

text \<open>
  The examples below run the generator on a concrete decoder. \<open>decode_atom\<close> is what
  Python's \<^verbatim>\<open>raw_decode\<close> does on its scalar cases: the literals \<^verbatim>\<open>null\<close>, \<^verbatim>\<open>true\<close> and
  \<^verbatim>\<open>false\<close>, and an integer numeral (an optional minus sign, then \<^verbatim>\<open>0\<close> or a nonzero
  digit followed by digits), of which it takes the longest match at the start of the text,
  without looking at what follows. It does no more than that: it reports
  \<^verbatim>\<open>JSONDecodeError\<close> at texts starting with a quote, a brace, a bracket, \<^verbatim>\<open>NaN\<close> or
  \<^verbatim>\<open>Infinity\<close>, and does not read a fraction or an exponent after a numeral; Python
  decodes those. On every other text it returns what Python returns.
\<close>

definition isdigit_char :: "char \<Rightarrow> bool" where
  "isdigit_char c = (48 \<le> (of_char c :: nat) \<and> (of_char c :: nat) \<le> 57)"

definition int_of_digits :: "string \<Rightarrow> int" where
  "int_of_digits ds = foldl (\<lambda>a c. 10 * a + (int (of_char c) - 48)) 0 ds"

definition decode_atom :: decoder where
  "decode_atom s =
     (if take 4 s = ''null'' then Inr (JNull, 4)
      else if take 4 s = ''true'' then Inr (JBool True, 4)
      else if take 5 s = ''false'' then Inr (JBool False, 5)
      else
        (let neg = (s \<noteq> [] \<and> hd s = CHR ''-'');
             r = (if neg then tl s else s);
             ds = (if r \<noteq> [] \<and> hd r = CHR ''0'' then ''0'' else takeWhile isdigit_char r)
         in if ds = [] then Inl JSONDecodeError
            else Inr (JInt (if neg then - int_of_digits ds else int_of_digits ds),
                      (if neg then 1 else 0) + length ds)))"

section \<open>Notions of the specification\<close>

text \<open>
  The boundary test of the loop at an occurrence \<open>start\<close> of the marker: neither the
  character before it nor the character after it is a letter.
\<close>

definition bounded_at :: "string \<Rightarrow> string \<Rightarrow> nat \<Rightarrow> bool" where
  "bounded_at s marker start =
     (\<not> isalpha (if 0 < start then [s ! (start - 1)] else [])
      \<and> \<not> isalpha (if start + length marker < length s then [s ! (start + length marker)] else []))"

text \<open>
  In the words of the specification: the marker occurs in the oracle text at index \<open>i\<close>,
  compared without regard to case, and the character immediately before the occurrence,
  if there is one, and the character immediately after it, if there is one, are not
  alphabetic.
\<close>

definition marker_occurs_at :: "string \<Rightarrow> string \<Rightarrow> nat \<Rightarrow> bool" where
  "marker_occurs_at s marker i =
     (i + length marker \<le> length s
      \<and> lower (take (length marker) (drop i s)) = marker
      \<and> (i = 0 \<or> \<not> isalpha_char (s ! (i - 1)))
      \<and> (i + length marker = length s \<or> \<not> isalpha_char (s ! (i + length marker))))"

text \<open>The record without the items under a key.\<close>

definition dict_without :: "string \<Rightarrow> (string \<times> json) list \<Rightarrow> (string \<times> json) list" where
  "dict_without key d = filter (\<lambda>kv. fst kv \<noteq> key) d"

text \<open>
  In the words of the specification: the \<^verbatim>\<open>legalities\<close> mapping is non-empty and every
  value in it equals the literal status \<^verbatim>\<open>"not_legal"\<close>.
\<close>

definition legalities_rule :: "(string \<times> json) list \<Rightarrow> bool" where
  "legalities_rule lg = (lg \<noteq> [] \<and> (\<forall>v \<in> set (dict_values lg). v = JStr ''not_legal''))"

text \<open>
  A field that is a text, or is absent, null or otherwise falsy: on such a field
  \<^verbatim>\<open>(v or "").strip()\<close> does not raise.
\<close>

fun text_or_falsy :: "json \<Rightarrow> bool" where
  "text_or_falsy (JStr s) = True"
| "text_or_falsy v = (\<not> truthy v)"

text \<open>
  The tails of \<^verbatim>\<open>is_non_playable\<close>: from the \<^verbatim>\<open>layout\<close> rule on, from the type-line rule
  on, and the two oracle-text rules.
\<close>

definition rules_from_oracle :: "json \<Rightarrow> py_error + bool" where
  "rules_from_oracle oracle_text =
     and_then (if truthy oracle_text then py_in ''Theme color'' oracle_text else Inr False) (\<lambda>hit.
     if hit then Inr True else
     and_then (if truthy oracle_text then has_digital_only_oracle_marker oracle_text
               else Inr False) (\<lambda>hit.
     if hit then Inr True else
     Inr False))"

definition rules_from_type_line :: "json \<Rightarrow> json \<Rightarrow> py_error + bool" where
  "rules_from_type_line type_line oracle_text =
     and_then (if truthy type_line
               then and_then (any_in non_playable_types type_line) (\<lambda>hit.
                      if hit then Inr True
                      else and_then (py_strip type_line) (\<lambda>stripped. Inr (stripped = ''Card'')))
               else Inr False) (\<lambda>hit.
     if hit then Inr True else rules_from_oracle oracle_text)"

definition rules_from_layout :: "json \<Rightarrow> json \<Rightarrow> json \<Rightarrow> py_error + bool" where
  "rules_from_layout card' type_line oracle_text =
     and_then (py_get card' ''layout'') (\<lambda>lo.
     and_then (py_strip (py_or lo (JStr []))) (\<lambda>stripped.
     let layout = lower stripped in
     if layout \<in> {''token'', ''double_faced_token'', ''emblem'', ''planar'', ''scheme'',
                  ''vanguard'', ''art_series'', ''reversible_card''}
     then Inr True else rules_from_type_line type_line oracle_text))"

text \<open>
  In the words of the specification: the type line contains, as a substring, one of the
  ten labels, or the type line, after trimming surrounding whitespace, is exactly the
  text \<^verbatim>\<open>"Card"\<close>.
\<close>

definition is_substring :: "string \<Rightarrow> string \<Rightarrow> bool" where
  "is_substring sub s = (\<exists>pre post. s = pre @ sub @ post)"

definition type_line_rule :: "string \<Rightarrow> bool" where
  "type_line_rule type_line =
     ((\<exists>label \<in> {''Token'', ''Emblem'', ''Plane'', ''Scheme'', ''Vanguard'', ''Phenomenon'',
                    ''Conspiracy'', ''Dungeon'', ''Attraction'', ''Contraption''}.
          is_substring label type_line)
      \<or> strip type_line = ''Card'')"

text \<open>
  In the words of the specification: a field case-insensitively and trimmed, as the rules
  for \<^verbatim>\<open>border_color\<close> and \<^verbatim>\<open>layout\<close> compare it; an absent field reads as the empty text.
\<close>

definition normalized :: "json \<Rightarrow> string" where
  "normalized v = (case v of JStr s \<Rightarrow> lower (strip s) | _ \<Rightarrow> [])"

text \<open>
  None of the rules for \<^verbatim>\<open>border_color\<close>, \<^verbatim>\<open>has_acorn\<close> and \<^verbatim>\<open>layout\<close> applies to the
  record: every other field looks playable.
\<close>

definition field_rules_silent :: "(string \<times> json) list \<Rightarrow> bool" where
  "field_rules_silent d =
     (normalized (dict_get d ''border_color'') \<noteq> ''silver''
      \<and> \<not> truthy (dict_get d ''has_acorn'')
      \<and> text_or_falsy (dict_get d ''layout'')
      \<and> normalized (dict_get d ''layout'')
          \<notin> {''token'', ''double_faced_token'', ''emblem'', ''planar'', ''scheme'',
             ''vanguard'', ''art_series'', ''reversible_card''})"

text \<open>
  None of the rules for the type line and the oracle text applies: each is absent, or a
  text that its rules do not match.
\<close>

definition text_rules_silent :: "json \<Rightarrow> json \<Rightarrow> bool" where
  "text_rules_silent type_line oracle_text =
     ((type_line = JNull \<or> (\<exists>t. type_line = JStr t \<and> \<not> type_line_rule t))
      \<and> (oracle_text = JNull
          \<or> (\<exists>x. oracle_text = JStr x \<and> \<not> is_substring ''Theme color'' x
                \<and> \<not> (\<exists>marker \<in> set DIGITAL_ONLY_ORACLE_MARKERS.
                        \<exists>i. marker_occurs_at x marker i))))"

text \<open>
  In the words of the specification: the lines of a block, in their fixed order. The name
  line is always there; each other line is there when its value is present (and, for the
  mana cost, the type line and the oracle text, non-empty), and left out otherwise.
\<close>

definition spec_block_lines ::
  "json \<Rightarrow> json \<Rightarrow> json \<Rightarrow> json \<Rightarrow> json \<Rightarrow> json \<Rightarrow> json \<Rightarrow> json \<Rightarrow> string list" where
  "spec_block_lines name mana_cost type_line power' toughness loyalty defense oracle_text =
     [''Name: '' @ py_str name]
     @ (if truthy mana_cost then [''Mana cost: '' @ py_str mana_cost] else [])
     @ (if truthy type_line then [''Type: '' @ py_str type_line] else [])
     @ (if power' \<noteq> JNull \<and> toughness \<noteq> JNull
        then [''Power/Toughness: '' @ py_str power' @ ''/'' @ py_str toughness] else [])
     @ (if loyalty \<noteq> JNull then [''Loyalty: '' @ py_str loyalty] else [])
     @ (if defense \<noteq> JNull then [''Defense: '' @ py_str defense] else [])
     @ (if truthy oracle_text then [py_str oracle_text] else [])"

text \<open>The record of the specification's scenario.\<close>

definition bolt :: json where
  "bolt = JObj [(''name'', JStr ''Bolt''), (''mana_cost'', JStr ''{R}''),
     (''type_line'', JStr ''Instant''), (''oracle_text'', JStr ''Deal 3 damage.''),
     (''border_color'', JStr ''black''), (''legalities'', JObj [(''standard'', JStr ''legal'')])]"


text \<open>
  What Python's decoder guarantees on success: the value it decoded ends after the start
  of the text.
\<close>

definition consumes :: "decoder \<Rightarrow> bool" where
  "consumes raw_decode = (\<forall>s obj idx. raw_decode s = Inr (obj, idx) \<longrightarrow> 0 < idx)"

section \<open>Properties of the marker search\<close>

lemma of_char_less_256: "(of_char c :: nat) < 256"
  by (metis of_char_mod_256 mod_less_divisor zero_less_numeral)

lemma isalpha_lower_char: "isalpha_char (lower_char c) = isalpha_char c"
  using of_char_less_256 [of c]
  unfolding isalpha_char_def lower_char_def Let_def
  by (auto simp: of_char_of [where ?'a=nat])

lemma find_from_None:
  "find_from s m i = None \<Longrightarrow> i \<le> j \<Longrightarrow> j \<le> length s \<Longrightarrow> \<not> startswith_at s m j"
proof (induction s m i rule: find_from.induct)
  case (1 s m i)
  from "1.prems"(1) have a: "\<not> length s < i \<Longrightarrow> \<not> startswith_at s m i"
    and b: "\<not> length s < i \<Longrightarrow> find_from s m (Suc i) = None"
    by (auto simp: find_from.simps [of s m i] split: if_splits)
  show ?case
  proof (cases "j = i")
    case True
    with a "1.prems" show ?thesis by auto
  next
    case False
    with "1.prems" have "Suc i \<le> j" "\<not> length s < i" by auto
    with "1.IH" a b "1.prems" show ?thesis by auto
  qed
qed

lemma find_from_Some:
  "find_from s m i = Some j \<Longrightarrow>
     startswith_at s m j \<and> (\<forall>k. i \<le> k \<and> k < j \<longrightarrow> \<not> startswith_at s m k)"
proof (induction s m i rule: find_from.induct)
  case (1 s m i)
  show ?case
  proof (cases "startswith_at s m i")
    case True
    with "1.prems" show ?thesis
      by (auto simp: find_from.simps [of s m i] split: if_splits)
  next
    case False
    with "1.prems" have le: "\<not> length s < i" and r: "find_from s m (Suc i) = Some j"
      by (auto simp: find_from.simps [of s m i] split: if_splits)
    from "1.IH" [OF le False r] False show ?thesis
      by (metis Suc_leI le_neq_implies_less)
  qed
qed

text \<open>
  The loop, entered at an occurrence \<open>s0\<close>, answers whether some occurrence from \<open>s0\<close>
  on passes the boundary test: every later occurrence is visited.
\<close>

lemma marker_loop_iff:
  "(\<forall>s0. st = Some s0 \<longrightarrow> s0 \<le> length s \<and> startswith_at s m s0) \<Longrightarrow>
   marker_loop s m st \<longleftrightarrow>
     (\<exists>s0 j. st = Some s0 \<and> s0 \<le> j \<and> j \<le> length s \<and> startswith_at s m j \<and> bounded_at s m j)"
proof (induction s m st rule: marker_loop.induct)
  case (1 s m)
  show ?case by simp
next
  case (2 s m start)
  from "2.prems" have st: "start \<le> length s" "startswith_at s m start" by auto
  show ?case
  proof (cases "bounded_at s m start")
    case True
    then have "marker_loop s m (Some start)" by (simp add: bounded_at_def Let_def)
    with True st show ?thesis by auto
  next
    case False
    let ?nx = "find_from s m (start + 1)"
    have pre: "\<forall>s0. ?nx = Some s0 \<longrightarrow> s0 \<le> length s \<and> startswith_at s m s0"
      using find_from_bounds find_from_Some by blast
    from False have eq: "marker_loop s m (Some start) = marker_loop s m ?nx"
      by (auto simp: bounded_at_def Let_def)
    have ih: "marker_loop s m ?nx \<longleftrightarrow>
        (\<exists>s0 j. ?nx = Some s0 \<and> s0 \<le> j \<and> j \<le> length s \<and> startswith_at s m j \<and> bounded_at s m j)"
      using False pre by (intro "2.IH") (auto simp: bounded_at_def Let_def)
    have "(\<exists>s0 j. ?nx = Some s0 \<and> s0 \<le> j \<and> j \<le> length s \<and> startswith_at s m j \<and> bounded_at s m j)
       \<longleftrightarrow> (\<exists>j. start \<le> j \<and> j \<le> length s \<and> startswith_at s m j \<and> bounded_at s m j)"
      (is "?L \<longleftrightarrow> ?R")
    proof
      assume ?L
      then obtain s0 j where h: "?nx = Some s0" "s0 \<le> j" "j \<le> length s"
        "startswith_at s m j" "bounded_at s m j" by blast
      from find_from_bounds [OF h(1)] have "start \<le> s0" by simp
      with h show ?R by (meson le_trans)
    next
      assume ?R
      then obtain j where h: "start \<le> j" "j \<le> length s" "startswith_at s m j" "bounded_at s m j"
        by blast
      with False have j: "start + 1 \<le> j" by (cases "j = start") auto
      show ?L
      proof (cases ?nx)
        case None
        from find_from_None [OF None j h(2)] h(3) show ?thesis by simp
      next
        case (Some s0)
        from find_from_Some [OF Some] h(3) j have "s0 \<le> j" by (meson not_le)
        with Some h show ?thesis by blast
      qed
    qed
    with eq ih show ?thesis by simp
  qed
qed

lemma contains_marker_iff:
  "contains_marker_with_boundaries s m \<longleftrightarrow>
     (\<exists>j. j \<le> length s \<and> startswith_at s m j \<and> bounded_at s m j)"
proof -
  have pre: "\<forall>s0. find_from s m 0 = Some s0 \<longrightarrow> s0 \<le> length s \<and> startswith_at s m s0"
    using find_from_bounds find_from_Some by blast
  show ?thesis
    unfolding contains_marker_with_boundaries_def marker_loop_iff [OF pre]
  proof
    assume "\<exists>s0 j. find_from s m 0 = Some s0 \<and> s0 \<le> j \<and> j \<le> length s
              \<and> startswith_at s m j \<and> bounded_at s m j"
    then show "\<exists>j. j \<le> length s \<and> startswith_at s m j \<and> bounded_at s m j" by blast
  next
    assume "\<exists>j. j \<le> length s \<and> startswith_at s m j \<and> bounded_at s m j"
    then obtain j where h: "j \<le> length s" "startswith_at s m j" "bounded_at s m j" by blast
    show "\<exists>s0 j. find_from s m 0 = Some s0 \<and> s0 \<le> j \<and> j \<le> length s
              \<and> startswith_at s m j \<and> bounded_at s m j"
    proof (cases "find_from s m 0")
      case None
      from find_from_None [OF None _ h(1)] h(2) show ?thesis by simp
    next
      case (Some s0)
      from find_from_Some [OF Some] h(2) have "s0 \<le> j" by (meson not_le le0)
      with Some h show ?thesis by blast
    qed
  qed
qed

lemma occurs_lower:
  "j \<le> length s \<and> startswith_at (lower s) m j \<and> bounded_at (lower s) m j
     \<longleftrightarrow> marker_occurs_at s m j"
proof -
  have len: "length (lower s) = length s" by (simp add: lower_def)
  have nth: "\<And>k. k < length s \<Longrightarrow> isalpha_char (lower s ! k) = isalpha_char (s ! k)"
    by (simp add: lower_def isalpha_lower_char)
  have sw: "startswith_at (lower s) m j \<longleftrightarrow> lower (take (length m) (drop j s)) = m"
    by (simp add: startswith_at_def lower_def take_map drop_map)
  show ?thesis
  proof (cases "j \<le> length s \<and> lower (take (length m) (drop j s)) = m")
    case False
    then show ?thesis
      by (auto simp: sw marker_occurs_at_def)
  next
    case True
    then have "length m = length (take (length m) (drop j s))"
      by (metis length_map lower_def)
    then have "length m = min (length m) (length s - j)" by simp
    then have b: "j + length m \<le> length s" using True by arith
    show ?thesis
      using True b
      by (auto simp: sw marker_occurs_at_def bounded_at_def isalpha_def len nth)
  qed
qed

lemma contains_marker_lower_iff:
  "contains_marker_with_boundaries (lower s) m \<longleftrightarrow> (\<exists>j. marker_occurs_at s m j)"
  unfolding contains_marker_iff
  using occurs_lower [of _ s m] by (auto simp: lower_def)

lemma has_marker_iff:
  "has_digital_only_oracle_marker (JStr s) =
     Inr (\<exists>marker \<in> set DIGITAL_ONLY_ORACLE_MARKERS. \<exists>i. marker_occurs_at s marker i)"
  by (simp add: has_digital_only_oracle_marker_def and_then_def list_ex_iff
      contains_marker_lower_iff)

text \<open>
  C3. For every oracle text and every marker of the fixed list, the marker test on the
  lowered text holds exactly when some occurrence of the marker, compared without regard
  to case, has no letter immediately before it and none immediately after it; the
  occurrence need not be the first. The exclusion holds exactly when it does for some
  marker. The text "Seeker" does not trigger it, "Seek a card" does.
\<close>

theorem marker_exclusion_word_boundaries:
  "(\<forall>marker \<in> set DIGITAL_ONLY_ORACLE_MARKERS.
       contains_marker_with_boundaries (lower oracle_text) marker
         \<longleftrightarrow> (\<exists>i. marker_occurs_at oracle_text marker i))
   \<and> has_digital_only_oracle_marker (JStr oracle_text) =
       Inr (\<exists>marker \<in> set DIGITAL_ONLY_ORACLE_MARKERS. \<exists>i. marker_occurs_at oracle_text marker i)
   \<and> has_digital_only_oracle_marker (JStr ''Seeker'') = Inr False
   \<and> has_digital_only_oracle_marker (JStr ''Seek a card'') = Inr True"
proof (intro conjI ballI)
  fix marker
  show "contains_marker_with_boundaries (lower oracle_text) marker
         \<longleftrightarrow> (\<exists>i. marker_occurs_at oracle_text marker i)"
    by (rule contains_marker_lower_iff)
next
  show "has_digital_only_oracle_marker (JStr oracle_text) =
       Inr (\<exists>marker \<in> set DIGITAL_ONLY_ORACLE_MARKERS. \<exists>i. marker_occurs_at oracle_text marker i)"
    by (rule has_marker_iff)
next
  show "has_digital_only_oracle_marker (JStr ''Seeker'') = Inr False"
    by code_simp
next
  show "has_digital_only_oracle_marker (JStr ''Seek a card'') = Inr True"
    by code_simp
qed

text \<open>
  An early occurrence that fails the test does not hide a later one that passes: in
  "seeker, seek" the marker "seek" is found at index 8.
\<close>

theorem marker_exclusion_word_boundaries_witness:
  "''seek'' \<in> set DIGITAL_ONLY_ORACLE_MARKERS
   \<and> \<not> marker_occurs_at ''Seeker, seek'' ''seek'' 0
   \<and> marker_occurs_at ''Seeker, seek'' ''seek'' 8
   \<and> contains_marker_with_boundaries (lower ''Seeker, seek'') ''seek''"
proof -
  have mem: "''seek'' \<in> set DIGITAL_ONLY_ORACLE_MARKERS"
    by (simp add: DIGITAL_ONLY_ORACLE_MARKERS_def)
  have no: "\<not> marker_occurs_at ''Seeker, seek'' ''seek'' 0"
    by code_simp
  have occ: "marker_occurs_at ''Seeker, seek'' ''seek'' 8"
    by code_simp
  from marker_exclusion_word_boundaries [of "''Seeker, seek''"] mem occ
  have "contains_marker_with_boundaries (lower ''Seeker, seek'') ''seek''"
    by blast
  with mem no occ show ?thesis by simp
qed

section \<open>Properties of field resolution\<close>

text \<open>
  C8. For every record, face and key, \<^verbatim>\<open>pick_field\<close> returns the record's own value when
  it is present and not null; otherwise, when there is a first face, that face's value,
  which may be null or absent (both read as \<^verbatim>\<open>None\<close>); otherwise \<^verbatim>\<open>None\<close>.
\<close>

theorem pick_field_resolution:
  "(dict_get card_d key \<noteq> JNull \<longrightarrow> pick_field (JObj card_d) face key = Inr (dict_get card_d key))
   \<and> (dict_get card_d key = JNull \<longrightarrow>
        pick_field (JObj card_d) (JObj face_d) key = Inr (dict_get face_d key))
   \<and> (dict_get card_d key = JNull \<longrightarrow> pick_field (JObj card_d) JNull key = Inr JNull)"
  by (simp add: pick_field_def and_then_def)

theorem pick_field_resolution_witness:
  "dict_get [(''power'', JStr ''3'')] ''power'' \<noteq> JNull
   \<and> pick_field (JObj [(''power'', JStr ''3'')]) (JObj [(''power'', JStr ''2'')]) ''power''
       = Inr (JStr ''3'')
   \<and> dict_get [(''power'', JNull)] ''power'' = JNull
   \<and> pick_field (JObj [(''power'', JNull)]) (JObj [(''power'', JStr ''2'')]) ''power''
       = Inr (JStr ''2'')
   \<and> pick_field (JObj [(''power'', JNull)]) (JObj [(''name'', JStr ''A'')]) ''power'' = Inr JNull
   \<and> pick_field (JObj [(''power'', JNull)]) JNull ''power'' = Inr JNull"
proof -
  have present: "dict_get [(''power'', JStr ''3'')] ''power'' \<noteq> JNull"
    by (simp add: dict_get_def)
  have null: "dict_get [(''power'', JNull)] ''power'' = JNull"
    by (simp add: dict_get_def)
  from present
    pick_field_resolution [of "[(''power'', JStr ''3'')]" "''power''"
      "JObj [(''power'', JStr ''2'')]" "[]"]
  have a: "pick_field (JObj [(''power'', JStr ''3'')]) (JObj [(''power'', JStr ''2'')]) ''power''
       = Inr (JStr ''3'')"
    by (simp add: dict_get_def)
  from null
    pick_field_resolution [of "[(''power'', JNull)]" "''power''" JNull "[(''power'', JStr ''2'')]"]
  have b: "pick_field (JObj [(''power'', JNull)]) (JObj [(''power'', JStr ''2'')]) ''power''
       = Inr (JStr ''2'')"
    and d: "pick_field (JObj [(''power'', JNull)]) JNull ''power'' = Inr JNull"
    by (simp_all add: dict_get_def)
  from null
    pick_field_resolution [of "[(''power'', JNull)]" "''power''" JNull "[(''name'', JStr ''A'')]"]
  have c: "pick_field (JObj [(''power'', JNull)]) (JObj [(''name'', JStr ''A'')]) ''power''
       = Inr JNull"
    by (simp add: dict_get_def)
  from present null a b c d show ?thesis by simp
qed

section \<open>Properties of the playability rules\<close>

lemma dict_get_without:
  "dict_get (dict_without k d) k' = (if k' = k then JNull else dict_get d k')"
  by (induction d) (auto simp: dict_get_def dict_without_def)

lemma text_or_falsy_strip:
  "text_or_falsy v \<Longrightarrow> \<exists>s. py_strip (py_or v (JStr [])) = Inr s"
  by (cases v) (auto simp: py_or_def)

lemma py_or_JNull: "py_or JNull w = w"
  by (simp add: py_or_def)

lemma truthy_py_or_JObj: "truthy (py_or (JObj lg) (JObj [])) = (lg \<noteq> [])"
  by (simp add: py_or_def)

lemma py_or_JObj: "lg \<noteq> [] \<Longrightarrow> py_or (JObj lg) w = JObj lg"
  by (simp add: py_or_def)

lemma is_non_playable_stages:
  "is_non_playable card' type_line oracle_text =
     and_then (py_get card' ''border_color'') (\<lambda>bc.
     and_then (py_strip (py_or bc (JStr []))) (\<lambda>stripped.
     if lower stripped = ''silver'' then Inr True else
     and_then (py_get card' ''has_acorn'') (\<lambda>has_acorn.
     if truthy has_acorn then Inr True else
     and_then (py_get card' ''legalities'') (\<lambda>lg.
     and_then (if truthy (py_or lg (JObj [])) then all_not_legal (py_or lg (JObj []))
               else Inr False) (\<lambda>hit.
     if hit then Inr True else rules_from_layout card' type_line oracle_text)))))"
  unfolding is_non_playable_def rules_from_layout_def rules_from_type_line_def
    rules_from_oracle_def Let_def
  by (rule refl)

lemma rules_from_layout_without:
  "key \<noteq> ''layout'' \<Longrightarrow>
   rules_from_layout (JObj (dict_without key d)) type_line oracle_text =
   rules_from_layout (JObj d) type_line oracle_text"
  by (simp add: rules_from_layout_def dict_get_without)

lemma startswith_at_iff:
  "j \<le> length s \<and> startswith_at s sub j \<longleftrightarrow> (\<exists>post. s = take j s @ sub @ post \<and> j \<le> length s)"
proof
  assume h: "j \<le> length s \<and> startswith_at s sub j"
  then have "drop j s = sub @ drop (length sub) (drop j s)"
    by (metis append_take_drop_id startswith_at_def)
  then have "s = take j s @ sub @ drop (length sub) (drop j s)"
    by (metis append_take_drop_id)
  with h show "\<exists>post. s = take j s @ sub @ post \<and> j \<le> length s" by blast
next
  assume "\<exists>post. s = take j s @ sub @ post \<and> j \<le> length s"
  then obtain post where p: "s = take j s @ sub @ post" and j: "j \<le> length s" by blast
  from p have "drop j s = sub @ post"
    by (metis append_eq_conv_conj append_take_drop_id)
  with j show "j \<le> length s \<and> startswith_at s sub j"
    by (simp add: startswith_at_def)
qed

lemma str_contains_iff: "str_contains s sub \<longleftrightarrow> is_substring sub s"
proof
  assume "str_contains s sub"
  then obtain j where f: "find_from s sub 0 = Some j"
    by (auto simp: str_contains_def)
  from find_from_bounds [OF f] find_from_Some [OF f]
  have "j \<le> length s \<and> startswith_at s sub j" by simp
  then show "is_substring sub s"
    unfolding startswith_at_iff is_substring_def by blast
next
  assume "is_substring sub s"
  then obtain pre post where p: "s = pre @ sub @ post"
    by (auto simp: is_substring_def)
  then have a: "startswith_at s sub (length pre)" and b: "length pre \<le> length s"
    by (simp_all add: startswith_at_def)
  show "str_contains s sub"
  proof (cases "find_from s sub 0")
    case None
    from find_from_None [OF None _ b] a show ?thesis by simp
  next
    case (Some j)
    then show ?thesis by (simp add: str_contains_def)
  qed
qed

lemma any_in_JStr:
  "any_in labels (JStr s) = Inr (\<exists>label \<in> set labels. str_contains s label)"
  by (induction labels) (auto simp: and_then_def)

lemma is_substring_Nil: "is_substring sub [] \<longleftrightarrow> sub = []"
  by (simp add: is_substring_def)

lemma type_line_rule_Nil: "\<not> type_line_rule []"
  by (simp add: type_line_rule_def is_substring_Nil strip_def)

lemma rules_from_type_line_JStr:
  "rules_from_type_line (JStr s) oracle_text =
     (if type_line_rule s then Inr True else rules_from_oracle oracle_text)"
proof (cases "s = []")
  case True
  then show ?thesis
    by (simp add: rules_from_type_line_def and_then_def type_line_rule_Nil)
next
  case False
  have labels: "(\<exists>label \<in> set non_playable_types. str_contains s label) \<longleftrightarrow>
      (\<exists>label \<in> {''Token'', ''Emblem'', ''Plane'', ''Scheme'', ''Vanguard'', ''Phenomenon'',
                    ''Conspiracy'', ''Dungeon'', ''Attraction'', ''Contraption''}.
          is_substring label s)"
    unfolding str_contains_iff non_playable_types_def by simp
  show ?thesis
    using False
    unfolding rules_from_type_line_def any_in_JStr labels type_line_rule_def
    by (simp add: and_then_def)
qed

lemma rules_from_type_line_JNull:
  "rules_from_type_line JNull oracle_text = rules_from_oracle oracle_text"
  by (simp add: rules_from_type_line_def and_then_def)

lemma rules_from_oracle_JNull: "rules_from_oracle JNull = Inr False"
  by (simp add: rules_from_oracle_def and_then_def)

text \<open>The rules on the record's own fields run first, whatever the two texts are.\<close>

lemma is_non_playable_split:
  "is_non_playable card' type_line oracle_text =
     (case is_non_playable card' JNull JNull of
        Inl e \<Rightarrow> Inl e
      | Inr hit \<Rightarrow> if hit then Inr True else rules_from_type_line type_line oracle_text)"
  by (simp add: is_non_playable_stages [of card'] rules_from_layout_def
      rules_from_type_line_JNull rules_from_oracle_JNull and_then_def Let_def
      split: sum.splits)

text \<open>
  C5, as the code has it. For every record on which the rules for \<^verbatim>\<open>border_color\<close>,
  \<^verbatim>\<open>has_acorn\<close>, \<^verbatim>\<open>legalities\<close> and \<^verbatim>\<open>layout\<close> evaluate, and every type line that is a
  text: if the type line contains one of the ten labels as a substring, or is exactly
  "Card" after trimming, the record is excluded regardless of all other fields; if it
  matches neither, the record is excluded exactly when it would be with no type line at
  all, that is, when one of the other rules excludes it.
\<close>

theorem type_line_exclusion:
  assumes "is_non_playable card' JNull JNull = Inr r"
  shows "is_non_playable card' (JStr s) oracle_text =
           (if type_line_rule s then Inr True else is_non_playable card' JNull oracle_text)"
  using assms
  by (simp add: is_non_playable_split [of card' "JStr s"]
      is_non_playable_split [of card' JNull oracle_text]
      rules_from_type_line_JStr rules_from_type_line_JNull)

theorem type_line_exclusion_witness:
  "is_non_playable (JObj [(''name'', JStr ''Theme''), (''border_color'', JStr ''black'')])
       JNull JNull = Inr False
   \<and> type_line_rule ''  Card ''
   \<and> is_non_playable (JObj [(''name'', JStr ''Theme''), (''border_color'', JStr ''black'')])
       (JStr ''  Card '') (JStr ''Flying'') = Inr True"
proof -
  let ?c = "JObj [(''name'', JStr ''Theme''), (''border_color'', JStr ''black'')]"
  have h: "is_non_playable ?c JNull JNull = Inr False"
    by code_simp
  have "strip ''  Card '' = ''Card''"
    by code_simp
  then have t: "type_line_rule ''  Card ''"
    by (simp add: type_line_rule_def)
  from type_line_exclusion [OF h, of "''  Card ''" "JStr ''Flying''"] t
  have "is_non_playable ?c (JStr ''  Card '') (JStr ''Flying'') = Inr True"
    by simp
  with h t show ?thesis by simp
qed

text \<open>
  C5 as stated fails: a record with a silver border is excluded although its type line
  "Instant" contains none of the labels and is not "Card".
\<close>

theorem type_line_iff_counterexample:
  "is_non_playable (JObj [(''name'', JStr ''Relic''), (''border_color'', JStr ''silver'')])
       (JStr ''Instant'') JNull = Inr True
   \<and> \<not> type_line_rule ''Instant''"
proof -
  have a: "is_non_playable (JObj [(''name'', JStr ''Relic''), (''border_color'', JStr ''silver'')])
          (JStr ''Instant'') JNull = Inr True"
    by code_simp
  have b: "\<not> type_line_rule ''Instant''"
    unfolding type_line_rule_def str_contains_iff [symmetric]
    by code_simp
  from a b show ?thesis by simp
qed

lemma strip_Nil: "strip [] = []"
  by (simp add: strip_def)

lemma text_or_falsy_normalized:
  "text_or_falsy v \<Longrightarrow> \<exists>s. py_strip (py_or v (JStr [])) = Inr s \<and> lower s = normalized v"
  by (cases v) (auto simp: py_or_def normalized_def strip_Nil lower_def)

lemma rules_from_oracle_silent:
  "oracle_text = JNull
     \<or> (\<exists>x. oracle_text = JStr x \<and> \<not> is_substring ''Theme color'' x
           \<and> \<not> (\<exists>marker \<in> set DIGITAL_ONLY_ORACLE_MARKERS. \<exists>i. marker_occurs_at x marker i))
   \<Longrightarrow> rules_from_oracle oracle_text = Inr False"
  by (auto simp: rules_from_oracle_def and_then_def has_marker_iff str_contains_iff)

lemma rules_from_type_line_silent:
  "text_rules_silent type_line oracle_text \<Longrightarrow>
   rules_from_type_line type_line oracle_text = Inr False"
  unfolding text_rules_silent_def
  using rules_from_oracle_silent [of oracle_text]
  by (auto simp: rules_from_type_line_JStr rules_from_type_line_JNull)

lemma rules_from_layout_silent:
  assumes "field_rules_silent d"
  shows "rules_from_layout (JObj d) type_line oracle_text
           = rules_from_type_line type_line oracle_text"
proof -
  from assms have t: "text_or_falsy (dict_get d ''layout'')"
    and n: "normalized (dict_get d ''layout'')
          \<notin> {''token'', ''double_faced_token'', ''emblem'', ''planar'', ''scheme'',
             ''vanguard'', ''art_series'', ''reversible_card''}"
    by (simp_all add: field_rules_silent_def)
  from text_or_falsy_normalized [OF t] obtain s
    where s: "py_strip (py_or (dict_get d ''layout'') (JStr [])) = Inr s"
      and l: "lower s = normalized (dict_get d ''layout'')" by blast
  from n show ?thesis
    by (simp add: rules_from_layout_def and_then_def s l Let_def)
qed

lemma is_non_playable_by_legalities:
  assumes "text_or_falsy (dict_get d ''border_color'')" "field_rules_silent d"
    "text_rules_silent type_line oracle_text"
  shows "(dict_get d ''legalities'' = JObj lg \<longrightarrow>
            is_non_playable (JObj d) type_line oracle_text = Inr (legalities_rule lg))
       \<and> (dict_get d ''legalities'' = JNull \<longrightarrow>
            is_non_playable (JObj d) type_line oracle_text = Inr False)"
proof -
  note r = rules_from_layout_silent [OF assms(2)] rules_from_type_line_silent [OF assms(3)]
  from assms(2) have b: "normalized (dict_get d ''border_color'') \<noteq> ''silver''"
    and a: "\<not> truthy (dict_get d ''has_acorn'')"
    by (simp_all add: field_rules_silent_def)
  from text_or_falsy_normalized [OF assms(1)] obtain s
    where s: "py_strip (py_or (dict_get d ''border_color'') (JStr [])) = Inr s"
      and l: "lower s = normalized (dict_get d ''border_color'')" by blast
  have st: "is_non_playable (JObj d) type_line oracle_text =
     and_then (if truthy (py_or (dict_get d ''legalities'') (JObj []))
               then all_not_legal (py_or (dict_get d ''legalities'') (JObj []))
               else Inr False) (\<lambda>hit. if hit then Inr True else Inr False)"
    using a b
    by (simp only: is_non_playable_stages [of "JObj d"] r) (simp add: and_then_def s l)
  show ?thesis
    unfolding st
    by (auto simp: and_then_def py_or_JNull truthy_py_or_JObj py_or_JObj
        legalities_rule_def list_all_iff)
qed


text \<open>
  C6. For every record, the legalities exclusion applies exactly when the \<^verbatim>\<open>legalities\<close>
  mapping is non-empty and every value in it is the text \<^verbatim>\<open>"not_legal"\<close>. Such a record is
  excluded whatever its type line, oracle text and other fields are. A record whose
  mapping is empty, absent, or holds another value is excluded exactly when the same
  record without the mapping is; in particular, when no other rule applies to it, the
  record is excluded if and only if its mapping is non-empty with every value
  \<^verbatim>\<open>"not_legal"\<close>, and a record with an empty or absent mapping is not excluded. (The
  \<^verbatim>\<open>border_color\<close> rule runs first; its field is a text or absent.)
\<close>

theorem legalities_exclusion:
  assumes "text_or_falsy (dict_get d ''border_color'')"
  shows "(dict_get d ''legalities'' = JObj lg \<longrightarrow>
            is_non_playable (JObj d) type_line oracle_text =
              (if legalities_rule lg then Inr True
               else is_non_playable (JObj (dict_without ''legalities'' d)) type_line oracle_text))
       \<and> (dict_get d ''legalities'' = JNull \<longrightarrow>
            is_non_playable (JObj d) type_line oracle_text =
              is_non_playable (JObj (dict_without ''legalities'' d)) type_line oracle_text)
       \<and> (field_rules_silent d \<longrightarrow> text_rules_silent type_line oracle_text \<longrightarrow>
            dict_get d ''legalities'' = JObj lg \<longrightarrow>
            is_non_playable (JObj d) type_line oracle_text = Inr (legalities_rule lg))
       \<and> (field_rules_silent d \<longrightarrow> text_rules_silent type_line oracle_text \<longrightarrow>
            dict_get d ''legalities'' = JNull \<longrightarrow>
            is_non_playable (JObj d) type_line oracle_text = Inr False)"
proof -
  from text_or_falsy_strip [OF assms] obtain s
    where s: "py_strip (py_or (dict_get d ''border_color'') (JStr [])) = Inr s" by blast
  have r: "rules_from_layout (JObj (dict_without ''legalities'' d)) type_line oracle_text =
           rules_from_layout (JObj d) type_line oracle_text"
    by (rule rules_from_layout_without) simp
  have a: "dict_get d ''legalities'' = JNull \<Longrightarrow>
            is_non_playable (JObj d) type_line oracle_text =
              is_non_playable (JObj (dict_without ''legalities'' d)) type_line oracle_text"
    by (simp add: is_non_playable_stages and_then_def dict_get_without s r py_or_JNull)
  have b: "dict_get d ''legalities'' = JObj lg \<Longrightarrow>
            is_non_playable (JObj d) type_line oracle_text =
              (if legalities_rule lg then Inr True
               else is_non_playable (JObj (dict_without ''legalities'' d)) type_line oracle_text)"
    by (simp add: is_non_playable_stages and_then_def dict_get_without s r
        legalities_rule_def list_all_iff py_or_JNull truthy_py_or_JObj py_or_JObj)
  from a b is_non_playable_by_legalities [OF assms, of type_line oracle_text lg]
  show ?thesis by blast
qed

theorem legalities_exclusion_witness:
  "text_or_falsy (dict_get [(''name'', JStr ''Bolt''), (''border_color'', JStr ''black'')] ''border_color'')
   \<and> field_rules_silent [(''name'', JStr ''Bolt''), (''border_color'', JStr ''black'')]
   \<and> text_rules_silent (JStr ''Instant'') (JStr ''Deal 3 damage.'')
   \<and> legalities_rule [(''standard'', JStr ''not_legal''), (''modern'', JStr ''not_legal'')]
   \<and> is_non_playable
        (JObj [(''legalities'',
                JObj [(''standard'', JStr ''not_legal''), (''modern'', JStr ''not_legal'')]),
               (''name'', JStr ''Bolt''), (''border_color'', JStr ''black'')])
        (JStr ''Instant'') (JStr ''Deal 3 damage.'') = Inr True
   \<and> \<not> legalities_rule [(''standard'', JStr ''not_legal''), (''modern'', JStr ''legal'')]
   \<and> is_non_playable
        (JObj [(''legalities'',
                JObj [(''standard'', JStr ''not_legal''), (''modern'', JStr ''legal'')]),
               (''name'', JStr ''Bolt''), (''border_color'', JStr ''black'')])
        (JStr ''Instant'') (JStr ''Deal 3 damage.'') = Inr False
   \<and> \<not> legalities_rule []
   \<and> is_non_playable
        (JObj [(''legalities'', JObj []),
               (''name'', JStr ''Bolt''), (''border_color'', JStr ''black'')])
        (JStr ''Instant'') (JStr ''Deal 3 damage.'') = Inr False
   \<and> is_non_playable (JObj [(''name'', JStr ''Bolt''), (''border_color'', JStr ''black'')])
        (JStr ''Instant'') (JStr ''Deal 3 damage.'') = Inr False"
proof -
  let ?base = "[(''name'', JStr ''Bolt''), (''border_color'', JStr ''black'')]"
  let ?all = "[(''standard'', JStr ''not_legal''), (''modern'', JStr ''not_legal'')]"
  let ?some = "[(''standard'', JStr ''not_legal''), (''modern'', JStr ''legal'')]"
  let ?tl = "JStr ''Instant''"
  let ?ot = "JStr ''Deal 3 damage.''"
  have t0: "text_or_falsy (dict_get ?base ''border_color'')"
    by (simp add: dict_get_def)
  have t: "\<And>lg. text_or_falsy (dict_get ((''legalities'', lg) # ?base) ''border_color'')"
    by (simp add: dict_get_def)
  have f0: "field_rules_silent ?base"
    by code_simp
  have f: "\<And>lg. field_rules_silent ((''legalities'', lg) # ?base)"
    using f0 by (simp add: field_rules_silent_def dict_get_def)
  have "\<not> type_line_rule ''Instant''"
    unfolding type_line_rule_def str_contains_iff [symmetric] by code_simp
  moreover have "\<not> is_substring ''Theme color'' ''Deal 3 damage.''"
    unfolding str_contains_iff [symmetric] by code_simp
  moreover have "has_digital_only_oracle_marker ?ot = Inr False"
    by code_simp
  then have "\<not> (\<exists>marker \<in> set DIGITAL_ONLY_ORACLE_MARKERS.
                \<exists>i. marker_occurs_at ''Deal 3 damage.'' marker i)"
    by (simp add: has_marker_iff)
  ultimately have x: "text_rules_silent ?tl ?ot"
    by (simp add: text_rules_silent_def)
  have g: "\<And>lg. dict_get ((''legalities'', lg) # ?base) ''legalities'' = lg"
    by (simp add: dict_get_def)
  have g0: "dict_get ?base ''legalities'' = JNull"
    by (simp add: dict_get_def)
  have r1: "legalities_rule ?all"
    by (simp add: legalities_rule_def dict_values_def)
  have r2: "\<not> legalities_rule ?some"
    by (simp add: legalities_rule_def dict_values_def)
  have r3: "\<not> legalities_rule []"
    by (simp add: legalities_rule_def)
  from legalities_exclusion [OF t, of "JObj ?all" ?all ?tl ?ot]
    f [of "JObj ?all"] x g [of "JObj ?all"] r1
  have a: "is_non_playable (JObj ((''legalities'', JObj ?all) # ?base)) ?tl ?ot = Inr True"
    by metis
  from legalities_exclusion [OF t, of "JObj ?some" ?some ?tl ?ot]
    f [of "JObj ?some"] x g [of "JObj ?some"] r2
  have b: "is_non_playable (JObj ((''legalities'', JObj ?some) # ?base)) ?tl ?ot = Inr False"
    by metis
  from legalities_exclusion [OF t, of "JObj []" "[]" ?tl ?ot]
    f [of "JObj []"] x g [of "JObj []"] r3
  have c: "is_non_playable (JObj ((''legalities'', JObj []) # ?base)) ?tl ?ot = Inr False"
    by metis
  from legalities_exclusion [OF t0, of "[]" ?tl ?ot] f0 x g0
  have d: "is_non_playable (JObj ?base) ?tl ?ot = Inr False"
    by metis
  from t0 f0 x r1 a r2 b r3 c d show ?thesis by simp
qed


section \<open>Properties of rendering\<close>

lemma append_if: "(if a then xs @ [y] else xs) = xs @ (if a then [y] else [])"
  by simp

lemma final_step:
  "(if truthy oracle_text
    then and_then (py_text oracle_text) (\<lambda>line. Inr (Some (join sep (ls @ [line]))))
    else Inr (Some (join sep ls))) =
   and_then (if truthy oracle_text then py_text oracle_text else Inr [])
     (\<lambda>line. Inr (Some (join sep (ls @ (if truthy oracle_text then [py_str oracle_text] else [])))))"
  by (cases oracle_text) (simp_all add: and_then_def)

lemma build_block_unfold:
  "build_block card' =
     and_then (first_face card') (\<lambda>face.
     and_then (resolve_name card' face) (\<lambda>name.
     if \<not> truthy name then Inr None else
     and_then (pick_field card' face ''mana_cost'') (\<lambda>mana_cost.
     and_then (pick_field card' face ''type_line'') (\<lambda>type_line.
     and_then (pick_field card' face ''oracle_text'') (\<lambda>oracle_text.
     and_then (pick_field card' face ''power'') (\<lambda>power.
     and_then (pick_field card' face ''toughness'') (\<lambda>toughness.
     and_then (pick_field card' face ''loyalty'') (\<lambda>loyalty.
     and_then (pick_field card' face ''defense'') (\<lambda>defense.
     and_then (is_non_playable card' type_line oracle_text) (\<lambda>non_playable.
     if non_playable then Inr None else
     and_then (if truthy oracle_text then py_text oracle_text else Inr []) (\<lambda>line.
     Inr (Some (join [CHR 0x0A]
       (spec_block_lines name mana_cost type_line power toughness loyalty defense
          oracle_text))))))))))))))"
  unfolding build_block_def spec_block_lines_def Let_def final_step append_if append_assoc
  by (rule refl)

text \<open>A playable record's oracle text, when truthy, is a text.\<close>

lemma rules_from_oracle_False:
  "rules_from_oracle oracle_text = Inr False \<Longrightarrow> truthy oracle_text \<Longrightarrow>
   \<exists>s. oracle_text = JStr s"
  by (cases oracle_text)
     (auto simp: rules_from_oracle_def and_then_def has_digital_only_oracle_marker_def
       split: if_splits)

lemma rules_from_type_line_False:
  "rules_from_type_line type_line oracle_text = Inr False \<Longrightarrow>
   rules_from_oracle oracle_text = Inr False"
  by (auto simp: rules_from_type_line_def and_then_def split: sum.splits if_splits)

lemma playable_oracle_text:
  assumes "is_non_playable c type_line oracle_text = Inr False" "truthy oracle_text"
  shows "\<exists>s. oracle_text = JStr s"
proof -
  from assms(1) have "rules_from_type_line type_line oracle_text = Inr False"
    by (auto simp: is_non_playable_split [of c type_line oracle_text]
        split: sum.splits if_splits)
  then have "rules_from_oracle oracle_text = Inr False"
    by (rule rules_from_type_line_False)
  from rules_from_oracle_False [OF this assms(2)] show ?thesis .
qed

lemma build_block_playable:
  assumes "first_face c = Inr face" "resolve_name c face = Inr name" "truthy name"
    "pick_field c face ''mana_cost'' = Inr mana_cost"
    "pick_field c face ''type_line'' = Inr type_line"
    "pick_field c face ''oracle_text'' = Inr oracle_text"
    "pick_field c face ''power'' = Inr pw"
    "pick_field c face ''toughness'' = Inr toughness"
    "pick_field c face ''loyalty'' = Inr loyalty"
    "pick_field c face ''defense'' = Inr defense"
    "is_non_playable c type_line oracle_text = Inr np"
  shows "build_block c =
     (if np then Inr None
      else Inr (Some (join [CHR 0x0A]
        (spec_block_lines name mana_cost type_line pw toughness loyalty defense oracle_text))))"
proof (cases np)
  case True
  with assms show ?thesis by (simp add: build_block_unfold and_then_def)
next
  case False
  have "\<exists>line. (if truthy oracle_text then py_text oracle_text else Inr []) = Inr line"
  proof (cases "truthy oracle_text")
    case True
    from playable_oracle_text [OF _ True] assms(11) False obtain s where "oracle_text = JStr s"
      by auto
    then show ?thesis by simp
  next
    case False
    then show ?thesis by simp
  qed
  then obtain line
    where "(if truthy oracle_text then py_text oracle_text else Inr []) = Inr line" by blast
  with False assms show ?thesis by (simp add: build_block_unfold and_then_def)
qed


lemma and_then_Inr:
  "and_then m f = Inr y \<Longrightarrow> \<exists>x. m = Inr x \<and> f x = Inr y"
  by (cases m) (simp_all add: and_then_def)

lemma build_block_Some:
  assumes "build_block c = Inr (Some b)"
  shows "\<exists>face name mana_cost type_line oracle_text pw toughness loyalty defense.
     first_face c = Inr face \<and> resolve_name c face = Inr name \<and> truthy name
     \<and> pick_field c face ''mana_cost'' = Inr mana_cost
     \<and> pick_field c face ''type_line'' = Inr type_line
     \<and> pick_field c face ''oracle_text'' = Inr oracle_text
     \<and> pick_field c face ''power'' = Inr pw
     \<and> pick_field c face ''toughness'' = Inr toughness
     \<and> pick_field c face ''loyalty'' = Inr loyalty
     \<and> pick_field c face ''defense'' = Inr defense
     \<and> is_non_playable c type_line oracle_text = Inr False
     \<and> b = join [CHR 0x0A]
        (spec_block_lines name mana_cost type_line pw toughness loyalty defense oracle_text)"
proof -
  from assms obtain face where f: "first_face c = Inr face"
    by (cases "first_face c") (simp_all add: build_block_unfold and_then_def)
  from assms f obtain name where n: "resolve_name c face = Inr name"
    by (cases "resolve_name c face") (simp_all add: build_block_unfold and_then_def)
  from assms f n have t: "truthy name"
    by (auto simp: build_block_unfold and_then_def split: if_splits)
  note u = build_block_unfold and_then_def
  from assms f n t obtain mana_cost where p1: "pick_field c face ''mana_cost'' = Inr mana_cost"
    by (cases "pick_field c face ''mana_cost''") (simp_all add: u)
  from assms f n t p1 obtain type_line where p2: "pick_field c face ''type_line'' = Inr type_line"
    by (cases "pick_field c face ''type_line''") (simp_all add: u)
  from assms f n t p1 p2 obtain oracle_text
    where p3: "pick_field c face ''oracle_text'' = Inr oracle_text"
    by (cases "pick_field c face ''oracle_text''") (simp_all add: u)
  from assms f n t p1 p2 p3 obtain pw where p4: "pick_field c face ''power'' = Inr pw"
    by (cases "pick_field c face ''power''") (simp_all add: u)
  from assms f n t p1 p2 p3 p4 obtain toughness
    where p5: "pick_field c face ''toughness'' = Inr toughness"
    by (cases "pick_field c face ''toughness''") (simp_all add: u)
  from assms f n t p1 p2 p3 p4 p5 obtain loyalty
    where p6: "pick_field c face ''loyalty'' = Inr loyalty"
    by (cases "pick_field c face ''loyalty''") (simp_all add: u)
  from assms f n t p1 p2 p3 p4 p5 p6 obtain defense
    where p7: "pick_field c face ''defense'' = Inr defense"
    by (cases "pick_field c face ''defense''") (simp_all add: u)
  from assms f n t p1 p2 p3 p4 p5 p6 p7 obtain np
    where q: "is_non_playable c type_line oracle_text = Inr np"
    by (cases "is_non_playable c type_line oracle_text") (simp_all add: u)
  from build_block_playable [OF f n t p1 p2 p3 p4 p5 p6 p7 q] assms
  have np: "\<not> np" and b: "b = join [CHR 0x0A]
        (spec_block_lines name mana_cost type_line pw toughness loyalty defense oracle_text)"
    by (auto split: if_splits)
  from q np have q': "is_non_playable c type_line oracle_text = Inr False" by simp
  from f n t p1 p2 p3 p4 p5 p6 p7 q' b show ?thesis by blast
qed

lemma join_Cons: "join sep (x # xs) = x @ (if xs = [] then [] else sep @ join sep xs)"
  by (cases xs) simp_all

lemma spec_block_lines_shape:
  "\<exists>more. spec_block_lines name mana_cost type_line pw toughness loyalty defense oracle_text
     = (''Name: '' @ py_str name) # more"
  by (simp add: spec_block_lines_def)

lemma block_shape:
  "\<exists>rest. join [CHR 0x0A]
      (spec_block_lines name mana_cost type_line pw toughness loyalty defense oracle_text)
     = ''Name: '' @ py_str name @ rest \<and> (rest = [] \<or> hd rest = CHR 0x0A)"
proof -
  from spec_block_lines_shape obtain more
    where "spec_block_lines name mana_cost type_line pw toughness loyalty defense oracle_text
     = (''Name: '' @ py_str name) # more" by blast
  then show ?thesis
    by (simp add: join_Cons)
qed


text \<open>
  C7. For every playable record with a name, the block is the lines of the specification
  joined by line breaks: the name line; a mana cost line iff the resolved mana cost is
  truthy (present and non-empty); a type line iff the resolved type line is; a
  power/toughness line iff both are not null; a loyalty line iff it is not null; a defense
  line iff it is not null; the oracle text iff it is present and non-empty. A value that
  is absent leaves no line. The Bolt record renders as the specification says, and a
  record with power 2, toughness 3 and no loyalty or defense gets the power/toughness
  line and neither of the other two.
\<close>

theorem build_block_renders:
  assumes "first_face c = Inr face" "resolve_name c face = Inr name" "truthy name"
    "pick_field c face ''mana_cost'' = Inr mana_cost"
    "pick_field c face ''type_line'' = Inr type_line"
    "pick_field c face ''oracle_text'' = Inr oracle_text"
    "pick_field c face ''power'' = Inr pw"
    "pick_field c face ''toughness'' = Inr toughness"
    "pick_field c face ''loyalty'' = Inr loyalty"
    "pick_field c face ''defense'' = Inr defense"
    "is_non_playable c type_line oracle_text = Inr False"
  shows "build_block c = Inr (Some (join [CHR 0x0A]
           (spec_block_lines name mana_cost type_line pw toughness loyalty defense oracle_text)))
    \<and> build_block bolt =
         Inr (Some (''Name: Bolt'' @ [CHR 0x0A] @ ''Mana cost: {R}'' @ [CHR 0x0A]
                    @ ''Type: Instant'' @ [CHR 0x0A] @ ''Deal 3 damage.''))
    \<and> build_block (JObj [(''name'', JStr ''Bear''), (''power'', JStr ''2''),
                          (''toughness'', JStr ''3'')]) =
         Inr (Some (''Name: Bear'' @ [CHR 0x0A] @ ''Power/Toughness: 2/3''))"
proof (intro conjI)
  show "build_block c = Inr (Some (join [CHR 0x0A]
           (spec_block_lines name mana_cost type_line pw toughness loyalty defense oracle_text)))"
    using build_block_playable [OF assms] by simp
next
  show "build_block bolt =
         Inr (Some (''Name: Bolt'' @ [CHR 0x0A] @ ''Mana cost: {R}'' @ [CHR 0x0A]
                    @ ''Type: Instant'' @ [CHR 0x0A] @ ''Deal 3 damage.''))"
    unfolding bolt_def by code_simp
next
  show "build_block (JObj [(''name'', JStr ''Bear''), (''power'', JStr ''2''),
                          (''toughness'', JStr ''3'')]) =
         Inr (Some (''Name: Bear'' @ [CHR 0x0A] @ ''Power/Toughness: 2/3''))"
    by code_simp
qed

theorem build_block_renders_witness:
  "first_face bolt = Inr JNull \<and> resolve_name bolt JNull = Inr (JStr ''Bolt'')
   \<and> truthy (JStr ''Bolt'')
   \<and> pick_field bolt JNull ''mana_cost'' = Inr (JStr ''{R}'')
   \<and> pick_field bolt JNull ''type_line'' = Inr (JStr ''Instant'')
   \<and> pick_field bolt JNull ''oracle_text'' = Inr (JStr ''Deal 3 damage.'')
   \<and> pick_field bolt JNull ''power'' = Inr JNull
   \<and> pick_field bolt JNull ''toughness'' = Inr JNull
   \<and> pick_field bolt JNull ''loyalty'' = Inr JNull
   \<and> pick_field bolt JNull ''defense'' = Inr JNull
   \<and> is_non_playable bolt (JStr ''Instant'') (JStr ''Deal 3 damage.'') = Inr False
   \<and> build_block bolt = Inr (Some (join [CHR 0x0A]
        [''Name: Bolt'', ''Mana cost: {R}'', ''Type: Instant'', ''Deal 3 damage.'']))"
proof -
  have f: "first_face bolt = Inr JNull" unfolding bolt_def by code_simp
  have n: "resolve_name bolt JNull = Inr (JStr ''Bolt'')" unfolding bolt_def by code_simp
  have t: "truthy (JStr ''Bolt'')" by simp
  have p1: "pick_field bolt JNull ''mana_cost'' = Inr (JStr ''{R}'')"
    unfolding bolt_def by code_simp
  have p2: "pick_field bolt JNull ''type_line'' = Inr (JStr ''Instant'')"
    unfolding bolt_def by code_simp
  have p3: "pick_field bolt JNull ''oracle_text'' = Inr (JStr ''Deal 3 damage.'')"
    unfolding bolt_def by code_simp
  have p4: "pick_field bolt JNull ''power'' = Inr JNull" unfolding bolt_def by code_simp
  have p5: "pick_field bolt JNull ''toughness'' = Inr JNull" unfolding bolt_def by code_simp
  have p6: "pick_field bolt JNull ''loyalty'' = Inr JNull" unfolding bolt_def by code_simp
  have p7: "pick_field bolt JNull ''defense'' = Inr JNull" unfolding bolt_def by code_simp
  have q: "is_non_playable bolt (JStr ''Instant'') (JStr ''Deal 3 damage.'') = Inr False"
    unfolding bolt_def by code_simp
  from build_block_renders [OF f n t p1 p2 p3 p4 p5 p6 p7 q]
  have "build_block bolt = Inr (Some (join [CHR 0x0A]
        [''Name: Bolt'', ''Mana cost: {R}'', ''Type: Instant'', ''Deal 3 damage.'']))"
    by (simp add: spec_block_lines_def)
  with f n t p1 p2 p3 p4 p5 p6 p7 q show ?thesis by simp
qed





text \<open>
  C10. Whenever \<^verbatim>\<open>build_block\<close> returns a text, the text is not empty and begins with
  "Name: " and the resolved name, after which it ends or a line break follows. So the
  test \<^verbatim>\<open>if not block\<close> of the pipeline skips a record exactly when \<^verbatim>\<open>build_block\<close>
  returned \<^verbatim>\<open>None\<close>, and every record with a block is printed, followed by "---".
\<close>

theorem build_block_result_shape:
  "(build_block c = Inr (Some b) \<longrightarrow>
      b \<noteq> []
      \<and> (\<exists>face name rest. first_face c = Inr face \<and> resolve_name c face = Inr name
            \<and> truthy name \<and> b = ''Name: '' @ py_str name @ rest
            \<and> (rest = [] \<or> hd rest = CHR 0x0A)))
   \<and> (build_block c = Inr None \<longrightarrow> emit (c # cards) = emit cards)
   \<and> (build_block c = Inr (Some b) \<longrightarrow>
        emit (c # cards) = (b # ''---'' # fst (emit cards), snd (emit cards)))
   \<and> (build_block c = Inl e \<longrightarrow> emit (c # cards) = ([], Some e))
   \<and> (first_face c = Inr face \<longrightarrow> resolve_name c face = Inr name \<longrightarrow> truthy name \<longrightarrow>
        pick_field c face ''mana_cost'' = Inr mana_cost \<longrightarrow>
        pick_field c face ''type_line'' = Inr type_line \<longrightarrow>
        pick_field c face ''oracle_text'' = Inr oracle_text \<longrightarrow>
        pick_field c face ''power'' = Inr pw \<longrightarrow>
        pick_field c face ''toughness'' = Inr toughness \<longrightarrow>
        pick_field c face ''loyalty'' = Inr loyalty \<longrightarrow>
        pick_field c face ''defense'' = Inr defense \<longrightarrow>
        is_non_playable c type_line oracle_text = Inr False \<longrightarrow>
        (\<exists>block. build_block c = Inr (Some block)
           \<and> emit (c # cards) = (block # ''---'' # fst (emit cards), snd (emit cards))))"
proof (intro conjI impI)
  assume h: "build_block c = Inr (Some b)"
  from build_block_Some [OF h] obtain face name mana_cost type_line oracle_text pw toughness
    loyalty defense
    where f: "first_face c = Inr face" and n: "resolve_name c face = Inr name"
      and t: "truthy name"
      and b: "b = join [CHR 0x0A]
        (spec_block_lines name mana_cost type_line pw toughness loyalty defense oracle_text)"
    by blast
  from block_shape [of name mana_cost type_line pw toughness loyalty defense oracle_text] b
  obtain rest where r: "b = ''Name: '' @ py_str name @ rest" "rest = [] \<or> hd rest = CHR 0x0A"
    by auto
  from f n t r show "\<exists>face name rest. first_face c = Inr face \<and> resolve_name c face = Inr name
            \<and> truthy name \<and> b = ''Name: '' @ py_str name @ rest
            \<and> (rest = [] \<or> hd rest = CHR 0x0A)"
    by blast
  from r show "b \<noteq> []" by simp
next
  assume "build_block c = Inr None"
  then show "emit (c # cards) = emit cards" by simp
next
  assume h: "build_block c = Inr (Some b)"
  from build_block_Some [OF h] obtain name mana_cost type_line oracle_text pw toughness
    loyalty defense
    where b: "b = join [CHR 0x0A]
        (spec_block_lines name mana_cost type_line pw toughness loyalty defense oracle_text)"
    by blast
  from block_shape [of name mana_cost type_line pw toughness loyalty defense oracle_text] b
  have "b \<noteq> []" by auto
  with h show "emit (c # cards) = (b # ''---'' # fst (emit cards), snd (emit cards))"
    by (simp add: case_prod_beta)
next
  assume "build_block c = Inl e"
  then show "emit (c # cards) = ([], Some e)" by simp
next
  assume a: "first_face c = Inr face" "resolve_name c face = Inr name" "truthy name"
    "pick_field c face ''mana_cost'' = Inr mana_cost"
    "pick_field c face ''type_line'' = Inr type_line"
    "pick_field c face ''oracle_text'' = Inr oracle_text"
    "pick_field c face ''power'' = Inr pw"
    "pick_field c face ''toughness'' = Inr toughness"
    "pick_field c face ''loyalty'' = Inr loyalty"
    "pick_field c face ''defense'' = Inr defense"
    "is_non_playable c type_line oracle_text = Inr False"
  let ?block = "join [CHR 0x0A]
        (spec_block_lines name mana_cost type_line pw toughness loyalty defense oracle_text)"
  from build_block_playable [OF a] have h: "build_block c = Inr (Some ?block)" by simp
  from block_shape [of name mana_cost type_line pw toughness loyalty defense oracle_text]
  have "?block \<noteq> []" by auto
  with h have "emit (c # cards) = (?block # ''---'' # fst (emit cards), snd (emit cards))"
    by (simp add: case_prod_beta)
  with h show "\<exists>block. build_block c = Inr (Some block)
           \<and> emit (c # cards) = (block # ''---'' # fst (emit cards), snd (emit cards))"
    by blast
qed

theorem build_block_result_shape_witness:
  "build_block bolt =
     Inr (Some (''Name: Bolt'' @ [CHR 0x0A] @ ''Mana cost: {R}'' @ [CHR 0x0A]
                @ ''Type: Instant'' @ [CHR 0x0A] @ ''Deal 3 damage.''))
   \<and> build_block (JObj [(''name'', JStr ''Relic''), (''border_color'', JStr ''silver'')]) = Inr None
   \<and> emit [JObj [(''name'', JStr ''Relic''), (''border_color'', JStr ''silver'')], bolt] =
       ([''Name: Bolt'' @ [CHR 0x0A] @ ''Mana cost: {R}'' @ [CHR 0x0A]
         @ ''Type: Instant'' @ [CHR 0x0A] @ ''Deal 3 damage.'', ''---''], None)"
proof -
  let ?b = "''Name: Bolt'' @ [CHR 0x0A] @ ''Mana cost: {R}'' @ [CHR 0x0A]
                @ ''Type: Instant'' @ [CHR 0x0A] @ ''Deal 3 damage.''"
  let ?r = "JObj [(''name'', JStr ''Relic''), (''border_color'', JStr ''silver'')]"
  have x: "build_block bolt = Inr (Some ?b)"
    unfolding bolt_def by code_simp
  have y: "build_block ?r = Inr None"
    by code_simp
  from x build_block_result_shape [of bolt ?b "[]"]
  have 1: "emit [bolt] = ([?b, ''---''], None)" by simp
  from y build_block_result_shape [of ?r "[]" "[bolt]"]
  have "emit [?r, bolt] = emit [bolt]" by blast
  with 1 x y show ?thesis by simp
qed


section \<open>Properties of the streaming decoder\<close>

lemma lstrip_Nil: "lstrip [] = []"
  by (simp add: lstrip_def)


lemma lstrip_nonspace: "\<not> isspace_char c \<Longrightarrow> lstrip (c # s) = c # s"
  by (simp add: lstrip_def)

lemma lstrip_idem: "lstrip (lstrip s) = lstrip s"
  by (induction s) (auto simp: lstrip_def)

lemma drain_Nil: "drain_buffer dec [] = Some ([], Break [])"
  by (subst drain_buffer.simps) (simp add: lstrip_Nil)

lemma drain_lstrip: "drain_buffer dec (lstrip s) = drain_buffer dec s"
  by (subst drain_buffer.simps, subst (2) drain_buffer.simps) (simp add: lstrip_idem)


lemma drain_close: "drain_buffer dec (CHR '']'' # s) = Some ([], Return)"
  by (subst drain_buffer.simps) (simp add: lstrip_def isspace_char_def)

lemma drain_comma: "drain_buffer dec (CHR '','' # s) = drain_buffer dec s"
  by (subst drain_buffer.simps) (simp add: lstrip_def isspace_char_def)

lemma drain_value:
  "\<not> isspace_char c \<Longrightarrow> c \<noteq> CHR '']'' \<Longrightarrow> c \<noteq> CHR '','' \<Longrightarrow>
   drain_buffer dec (c # s) =
     (case dec (c # s) of
        Inl e \<Rightarrow> (if e = JSONDecodeError then Some ([], Break (c # s)) else Some ([], Raise e))
      | Inr (obj, idx) \<Rightarrow>
          Option.bind (drain_buffer dec (drop idx (c # s)))
            (\<lambda>(objs, stop). Some (obj # objs, stop)))"
  by (subst drain_buffer.simps) (simp add: lstrip_nonspace Let_def)



lemma read_loop_Nil: "read_loop dec buf [] = Some ([], Returned)"
  by (simp add: read_loop.simps [of dec buf "[]"])




lemma find_array_start_bracket: "find_array_start (CHR ''['' # s) = Some s"
  by (simp add: isspace_char_def)

lemma lstrip_replicate_space: "lstrip (replicate n (CHR '' '') @ s) = lstrip s"
  by (induction n) (simp_all add: lstrip_def isspace_char_def)

lemma drain_replicate_space:
  "drain_buffer dec (replicate n (CHR '' '') @ s) = drain_buffer dec s"
  by (metis drain_lstrip lstrip_replicate_space)

lemma drain_decoded:
  "\<not> isspace_char c \<Longrightarrow> c \<noteq> CHR '']'' \<Longrightarrow> c \<noteq> CHR '','' \<Longrightarrow>
   dec (c # s) = Inr (obj, idx) \<Longrightarrow> drain_buffer dec (drop idx (c # s)) = Some (objs, stop) \<Longrightarrow>
   drain_buffer dec (c # s) = Some (obj # objs, stop)"
  by (simp add: drain_value)


lemma read_loop_break:
  "take 65536 f \<noteq> [] \<Longrightarrow> drain_buffer dec (buf @ take 65536 f) = Some (objs, Break b) \<Longrightarrow>
   read_loop dec b (drop 65536 f) = Some (more, stop) \<Longrightarrow>
   read_loop dec buf f = Some (objs @ more, stop)"
  by (simp add: read_loop.simps [of dec buf f])

lemma read_loop_return:
  "take 65536 f \<noteq> [] \<Longrightarrow> drain_buffer dec (buf @ take 65536 f) = Some (objs, Return) \<Longrightarrow>
   read_loop dec buf f = Some (objs, Returned)"
  by (simp add: read_loop.simps [of dec buf f])

text \<open>
  The generator ends on every input, given a decoder that consumes at least one character
  with every value, as Python's does.
\<close>

lemma length_lstrip: "length (lstrip s) \<le> length s"
  by (simp add: lstrip_def length_dropWhile_le)

lemma drain_buffer_returns:
  assumes "consumes dec"
  shows "\<exists>y. drain_buffer dec buf = Some y"
proof (induction "length buf" arbitrary: buf rule: less_induct)
  case less
  let ?b = "lstrip buf"
  show ?case
  proof (cases "?b = [] \<or> hd ?b = CHR '']''")
    case True
    then show ?thesis
      by (subst drain_buffer.simps) (auto simp: Let_def)
  next
    case False
    then have len: "length (tl ?b) < length buf"
      using length_lstrip [of buf] by (cases ?b) auto
    show ?thesis
    proof (cases "hd ?b = CHR '',''")
      case True
      from less [OF len] obtain y where "drain_buffer dec (tl ?b) = Some y" by blast
      with False True show ?thesis
        by (subst drain_buffer.simps) (simp add: Let_def)
    next
      case comma: False
      show ?thesis
      proof (cases "dec ?b")
        case (Inl e)
        with False comma show ?thesis
          by (subst drain_buffer.simps) (simp add: Let_def)
      next
        case (Inr r)
        obtain obj idx where r: "r = (obj, idx)" by (cases r)
        with Inr assms have "0 < idx" by (auto simp: consumes_def)
        with False have "length (drop idx ?b) < length buf"
          using length_lstrip [of buf] by (cases ?b) auto
        from less [OF this] obtain y where "drain_buffer dec (drop idx ?b) = Some y" by blast
        with False comma Inr r show ?thesis
          by (subst drain_buffer.simps) (auto simp: Let_def split: prod.splits)
      qed
    qed
  qed
qed

lemma read_loop_returns:
  "consumes dec \<Longrightarrow> \<exists>y. read_loop dec buf f = Some y"
proof (induction dec buf f rule: read_loop.induct)
  case (1 dec buf f)
  show ?case
  proof (cases "take 65536 f = []")
    case True
    then show ?thesis by (auto simp: read_loop_Nil)
  next
    case False
    from drain_buffer_returns [OF "1.prems"] obtain objs stop
      where d: "drain_buffer dec (buf @ take 65536 f) = Some (objs, stop)"
      by (metis surj_pair)
    show ?thesis
    proof (cases stop)
      case (Break b)
      from "1.IH" [OF False d refl Break "1.prems"] obtain z
        where "read_loop dec b (drop 65536 f) = Some z" by blast
      with False d Break show ?thesis
        by (simp add: read_loop.simps [of dec buf f])
    next
      case Return
      with False d show ?thesis
        by (simp add: read_loop.simps [of dec buf f])
    next
      case (Raise e)
      with False d show ?thesis
        by (simp add: read_loop.simps [of dec buf f])
    qed
  qed
qed

lemma iter_json_array_returns:
  "consumes dec \<Longrightarrow> \<exists>y. iter_json_array dec f = Some y"
  using read_loop_returns [of dec "[]"]
  by (cases "find_array_start f") (simp_all add: iter_json_array_def)

lemma consumes_decode_atom: "consumes decode_atom"
  by (auto simp: consumes_def decode_atom_def Let_def split: if_splits)


subsection \<open>Decode errors\<close>








subsection \<open>Chunk boundaries\<close>

lemma split_number:
  "iter_json_array decode_atom (CHR ''['' # replicate 65535 (CHR '' '') @ ''123]'')
     = Some ([JInt 1, JInt 23], Returned)"
proof -
  let ?f = "replicate 65535 (CHR '' '') @ ''123]''"
  have t: "take 65536 ?f = replicate 65535 (CHR '' '') @ ''1''" by simp
  have d: "drop 65536 ?f = ''23]''" by simp
  have d1: "decode_atom ''1'' = Inr (JInt 1, 1)" by code_simp
  have d2: "decode_atom ''23]'' = Inr (JInt 23, 2)" by code_simp
  have "drain_buffer decode_atom ''1'' = Some ([JInt 1], Break [])"
    by (rule drain_decoded [where dec = decode_atom, OF _ _ _ d1]) (simp_all add: isspace_char_def drain_Nil)
  then have a: "drain_buffer decode_atom ([] @ take 65536 ?f) = Some ([JInt 1], Break [])"
    by (simp only: t append_Nil drain_replicate_space)
  have "drain_buffer decode_atom ''23]'' = Some ([JInt 23], Return)"
    by (rule drain_decoded [where dec = decode_atom, OF _ _ _ d2]) (simp_all add: isspace_char_def drain_close)
  then have "read_loop decode_atom [] ''23]'' = Some ([JInt 23], Returned)"
    by (intro read_loop_return) simp_all
  then have b: "read_loop decode_atom [] (drop 65536 ?f) = Some ([JInt 23], Returned)"
    by (simp only: d)
  have "take 65536 ?f \<noteq> []" by (simp only: t) simp
  from read_loop_break [OF this a b]
  have "read_loop decode_atom [] ?f = Some ([JInt 1, JInt 23], Returned)" by simp
  then show ?thesis
    by (simp only: iter_json_array_def find_array_start_bracket option.case)
qed


lemma iter_123: "iter_json_array decode_atom ''[123]'' = Some ([JInt 123], Returned)"
proof -
  let ?f = "''123]''"
  have t: "take 65536 ?f = ?f" by simp
  have d1: "decode_atom ''123]'' = Inr (JInt 123, 3)" by code_simp
  have "drain_buffer decode_atom ?f = Some ([JInt 123], Return)"
    by (rule drain_decoded [where dec = decode_atom, OF _ _ _ d1])
       (simp_all add: isspace_char_def drain_close)
  then have a: "drain_buffer decode_atom ([] @ take 65536 ?f) = Some ([JInt 123], Return)"
    by (simp only: t append_Nil)
  have "take 65536 ?f \<noteq> []" by (simp only: t) simp
  from read_loop_return [OF this a]
  show ?thesis
    by (simp only: iter_json_array_def find_array_start_bracket option.case)
qed

text \<open>
  C2 says that the generator yields, for every well-formed array and every split into
  chunks, the values of the array. The code does not: a numeral that a chunk ends in is
  decoded as it stands. In the array of the one value 123, written after 65535 spaces, the
  first read of 65536 characters ends after the digit 1, and the generator yields 1 and
  then 23; on the same array without the spaces it yields 123.
\<close>

theorem chunk_boundary_splits_number:
  "iter_json_array decode_atom (CHR ''['' # replicate 65535 (CHR '' '') @ ''123]'')
     = Some ([JInt 1, JInt 23], Returned)
   \<and> iter_json_array decode_atom ''[123]'' = Some ([JInt 123], Returned)
   \<and> decode_atom ''123]'' = Inr (JInt 123, 3)"
proof (intro conjI)
  show "iter_json_array decode_atom (CHR ''['' # replicate 65535 (CHR '' '') @ ''123]'')
     = Some ([JInt 1, JInt 23], Returned)"
    by (rule split_number)
  show "iter_json_array decode_atom ''[123]'' = Some ([JInt 123], Returned)"
    by (rule iter_123)
  show "decode_atom ''123]'' = Inr (JInt 123, 3)"
    by code_simp
qed

lemma iter_extra_commas:
  "iter_json_array decode_atom ''[1,,2,]'' = Some ([JInt 1, JInt 2], Returned)"
proof -
  let ?f = "''1,,2,]''"
  have t: "take 65536 ?f = ?f" by simp
  have d1: "decode_atom ''1,,2,]'' = Inr (JInt 1, 1)" by code_simp
  have d2: "decode_atom ''2,]'' = Inr (JInt 2, 1)" by code_simp
  have "drain_buffer decode_atom ''2,]'' = Some ([JInt 2], Return)"
    by (rule drain_decoded [where dec = decode_atom, OF _ _ _ d2])
       (simp_all add: isspace_char_def drain_close drain_comma)
  then have "drain_buffer decode_atom '',,2,]'' = Some ([JInt 2], Return)"
    by (simp add: drain_comma)
  then have "drain_buffer decode_atom ?f = Some ([JInt 1, JInt 2], Return)"
    by (intro drain_decoded [where dec = decode_atom, OF _ _ _ d1]) (simp_all add: isspace_char_def)
  then have a: "drain_buffer decode_atom ([] @ take 65536 ?f) = Some ([JInt 1, JInt 2], Return)"
    by (simp only: t append_Nil)
  have "take 65536 ?f \<noteq> []" by (simp only: t) simp
  from read_loop_return [OF this a]
  show ?thesis
    by (simp only: iter_json_array_def find_array_start_bracket option.case)
qed

lemma iter_with_extra_comma:
  "iter_json_array decode_atom (CHR ''['' # replicate 65532 (CHR '' '') @ ''5,,12]'')
     = Some ([JInt 5, JInt 1, JInt 2], Returned)"
proof -
  let ?f = "replicate 65532 (CHR '' '') @ ''5,,12]''"
  have t: "take 65536 ?f = replicate 65532 (CHR '' '') @ ''5,,1''" by simp
  have d: "drop 65536 ?f = ''2]''" by simp
  have d1: "decode_atom ''5,,1'' = Inr (JInt 5, 1)" by code_simp
  have d2: "decode_atom ''1'' = Inr (JInt 1, 1)" by code_simp
  have d3: "decode_atom ''2]'' = Inr (JInt 2, 1)" by code_simp
  have "drain_buffer decode_atom ''1'' = Some ([JInt 1], Break [])"
    by (rule drain_decoded [where dec = decode_atom, OF _ _ _ d2])
       (simp_all add: isspace_char_def drain_Nil)
  then have "drain_buffer decode_atom '',,1'' = Some ([JInt 1], Break [])"
    by (simp add: drain_comma)
  then have "drain_buffer decode_atom ''5,,1'' = Some ([JInt 5, JInt 1], Break [])"
    by (intro drain_decoded [where dec = decode_atom, OF _ _ _ d1]) (simp_all add: isspace_char_def)
  then have a: "drain_buffer decode_atom ([] @ take 65536 ?f) = Some ([JInt 5, JInt 1], Break [])"
    by (simp only: t append_Nil drain_replicate_space)
  have "drain_buffer decode_atom ''2]'' = Some ([JInt 2], Return)"
    by (rule drain_decoded [where dec = decode_atom, OF _ _ _ d3])
       (simp_all add: isspace_char_def drain_close)
  then have "read_loop decode_atom [] ''2]'' = Some ([JInt 2], Returned)"
    by (intro read_loop_return) simp_all
  then have b: "read_loop decode_atom [] (drop 65536 ?f) = Some ([JInt 2], Returned)"
    by (simp only: d)
  have "take 65536 ?f \<noteq> []" by (simp only: t) simp
  from read_loop_break [OF this a b]
  have "read_loop decode_atom [] ?f = Some ([JInt 5, JInt 1, JInt 2], Returned)" by simp
  then show ?thesis
    by (simp only: iter_json_array_def find_array_start_bracket option.case)
qed

lemma iter_without_extra_comma:
  "iter_json_array decode_atom (CHR ''['' # replicate 65532 (CHR '' '') @ ''5,12]'')
     = Some ([JInt 5, JInt 12], Returned)"
proof -
  let ?f = "replicate 65532 (CHR '' '') @ ''5,12]''"
  have t: "take 65536 ?f = replicate 65532 (CHR '' '') @ ''5,12''" by simp
  have d: "drop 65536 ?f = '']''" by simp
  have d1: "decode_atom ''5,12'' = Inr (JInt 5, 1)" by code_simp
  have d2: "decode_atom ''12'' = Inr (JInt 12, 2)" by code_simp
  have "drain_buffer decode_atom ''12'' = Some ([JInt 12], Break [])"
    by (rule drain_decoded [where dec = decode_atom, OF _ _ _ d2])
       (simp_all add: isspace_char_def drain_Nil)
  then have "drain_buffer decode_atom '',12'' = Some ([JInt 12], Break [])"
    by (simp add: drain_comma)
  then have "drain_buffer decode_atom ''5,12'' = Some ([JInt 5, JInt 12], Break [])"
    by (intro drain_decoded [where dec = decode_atom, OF _ _ _ d1]) (simp_all add: isspace_char_def)
  then have a: "drain_buffer decode_atom ([] @ take 65536 ?f) = Some ([JInt 5, JInt 12], Break [])"
    by (simp only: t append_Nil drain_replicate_space)
  have "drain_buffer decode_atom '']'' = Some ([], Return)"
    by (rule drain_close)
  then have "read_loop decode_atom [] '']'' = Some ([], Returned)"
    by (intro read_loop_return) simp_all
  then have b: "read_loop decode_atom [] (drop 65536 ?f) = Some ([], Returned)"
    by (simp only: d)
  have "take 65536 ?f \<noteq> []" by (simp only: t) simp
  from read_loop_break [OF this a b]
  have "read_loop decode_atom [] ?f = Some ([JInt 5, JInt 12], Returned)" by simp
  then show ?thesis
    by (simp only: iter_json_array_def find_array_start_bracket option.case)
qed

text \<open>
  C9 says that extra commas are dropped and the values are those yielded without them.
  A comma at the head of the buffer is dropped, and "[1,,2,]" yields 1 and 2. But an
  extra comma moves every later character by one place, and so the point where a chunk
  ends: with 65532 spaces ahead, "5,,12]" yields 5, 1 and 2, where "5,12]" yields 5 and
  12.
\<close>

theorem extra_comma_moves_chunk_boundary:
  "drain_buffer raw_decode (CHR '','' # buf) = drain_buffer raw_decode buf
   \<and> iter_json_array decode_atom ''[1,,2,]'' = Some ([JInt 1, JInt 2], Returned)
   \<and> iter_json_array decode_atom (CHR ''['' # replicate 65532 (CHR '' '') @ ''5,,12]'')
       = Some ([JInt 5, JInt 1, JInt 2], Returned)
   \<and> iter_json_array decode_atom (CHR ''['' # replicate 65532 (CHR '' '') @ ''5,12]'')
       = Some ([JInt 5, JInt 12], Returned)"
  using drain_comma iter_extra_commas iter_with_extra_comma iter_without_extra_comma
  by blast


end
